theory Spec2Isabelle
  imports Main "HOL-Library.Word"
begin

unbundle bit_operations_syntax

section \<open>Data model\<close>

text \<open>
  A Go \<^verbatim>\<open>string\<close> is a sequence of bytes, which is what \<^typ>\<open>string\<close> is here; a
  \<^verbatim>\<open>[]byte\<close> is a list of 8-bit words.
\<close>

type_synonym byte = "8 word"

text \<open>
  The ways a call can end other than by returning its result: an \<^verbatim>\<open>error\<close> value handed
  back to the caller (one constructor per message given to \<^verbatim>\<open>errors.New\<close>), a run-time
  panic, or \<^verbatim>\<open>log.Fatal\<close>, which prints and ends the process with \<^verbatim>\<open>os.Exit(1)\<close>.
\<close>

datatype err =
    InvalidBytewordsLength   \<comment> \<open>"invalid bytewords length"\<close>
  | InvalidBytewords         \<comment> \<open>"invalid bytewords"\<close>
  | InvalidMiddleChars       \<comment> \<open>"invalid bytewords middle chars"\<close>
  | TooShort                 \<comment> \<open>"too short"\<close>
  | CrcMismatch              \<comment> \<open>"crc mismatch"\<close>

datatype panic_kind =
    SliceBounds     \<comment> \<open>slice bounds out of range\<close>
  | IndexRange      \<comment> \<open>index out of range\<close>
  | TypeAssertion   \<comment> \<open>interface conversion\<close>
  | PanicErr        \<comment> \<open>\<^verbatim>\<open>panic(err)\<close>\<close>

datatype stage =
    BytewordsDecode   \<comment> \<open>"Bytewords decode failed:"\<close>
  | CborOuter         \<comment> \<open>"CBOR outer decode failed:"\<close>
  | GzipReader        \<comment> \<open>"gzip reader failed:"\<close>
  | GzipRead          \<comment> \<open>"gzip read failed:"\<close>
  | CborInner         \<comment> \<open>"Inner CBOR decode failed:"\<close>

datatype failure = Error err | Panic panic_kind | Fatal stage

record WalletInfo =
  DerivationPath :: string
  ChainCode :: string
  Name :: string
  Internal1 :: bool
  Internal2 :: bool
  SomeBytes :: string
  XPub :: string

record Account =
  ID :: int
  Index :: int
  Type :: string
  Block :: int
  Wallet :: WalletInfo

record Root =
  Version :: int
  Accounts :: "Account list"

section \<open>The word table\<close>

definition bytewords :: string where
  "bytewords = ''ableacidalsoapexaquaarchatomauntawayaxisbackbaldbarnbeltbetabiasbluebodybragbrewbulbbuzzcalmcashcatschefcityclawcodecolacookcostcruxcurlcuspcyandarkdatadaysdelidicedietdoordowndrawdropdrumdulldutyeacheasyechoedgeepicevenexamexiteyesfactfairfernfigsfilmfishfizzflapflewfluxfoxyfreefrogfuelfundgalagamegeargemsgiftgirlglowgoodgraygrimgurugushgyrohalfhanghardhawkheathelphighhillholyhopehornhutsicedideaidleinchinkyintoirisironitemjadejazzjoinjoltjowljudojugsjumpjunkjurykeepkenokeptkeyskickkilnkingkitekiwiknoblamblavalazyleaflegsliarlimplionlistlogoloudloveluaulucklungmainmanymathmazememomenumeowmildmintmissmonknailnavyneednewsnextnoonnotenumbobeyoboeomitonyxopenovalowlspaidpartpeckplaypluspoempoolposepuffpumapurrquadquizraceramprealredorichroadrockroofrubyruinrunsrustsafesagascarsetssilkskewslotsoapsolosongstubsurfswantacotasktaxitenttiedtimetinytoiltombtoystriptunatwinuglyundouniturgeuservastveryvetovialvibeviewvisavoidvowswallwandwarmwaspwavewaxywebswhatwhenwhizwolfworkyankyawnyellyogayurtzapszerozestzinczonezoom''"

text \<open>\<^verbatim>\<open>words[i] = bytewords[i*4 : i*4+4]\<close> for \<open>i\<close> from 0 to 255.\<close>

definition words :: "string list" where
  "words = map (\<lambda>i. take 4 (drop (i * 4) bytewords)) [0..<256]"

text \<open>
  The slot of a word in the lookup table: \<^verbatim>\<open>x := w[0] - 'a'\<close> and \<^verbatim>\<open>y := w[3] - 'a'\<close> are
  bytes (the subtraction wraps), \<^verbatim>\<open>offset := int(y)*26 + int(x)\<close>.
\<close>

definition offset_of :: "string \<Rightarrow> nat" where
  "offset_of w =
     (let x = (of_char (w ! 0) :: byte) - of_char CHR ''a'';
          y = (of_char (w ! 3) :: byte) - of_char CHR ''a''
      in unat y * 26 + unat x)"

text \<open>
  The second loop of \<^verbatim>\<open>init\<close>, over the words with their indices from \<open>i\<close> on:
  \<^verbatim>\<open>lookupTable[offset] = int16(i)\<close>. The indices stay below 256, so the conversion to
  \<^verbatim>\<open>int16\<close> keeps them.
\<close>

fun fill_lookup :: "nat \<Rightarrow> string list \<Rightarrow> int list \<Rightarrow> int list" where
  "fill_lookup i [] t = t"
| "fill_lookup i (w # ws) t = fill_lookup (Suc i) ws (t[offset_of w := int i])"

text \<open>The table after \<^verbatim>\<open>init\<close>: 26 * 26 slots, all set to -1 first.\<close>

definition lookupTable :: "int list" where
  "lookupTable = fill_lookup 0 words (replicate (26 * 26) (- 1))"

section \<open>Library functions the code calls\<close>

text \<open>
  \<^verbatim>\<open>unicode.ToLower\<close> on the runes a byte converts to (0 to 255): the ASCII capitals, and
  the Latin-1 capitals \<open>U+00C0\<close> to \<open>U+00DE\<close> without \<open>U+00D7\<close>, move up by 32.
\<close>

definition unicode_ToLower :: "int \<Rightarrow> int" where
  "unicode_ToLower r =
     (if r \<le> 127 then (if 65 \<le> r \<and> r \<le> 90 then r + 32 else r)
      else if (192 \<le> r \<and> r \<le> 214) \<or> (216 \<le> r \<and> r \<le> 222) then r + 32
      else r)"

text \<open>
  \<^verbatim>\<open>hash/crc32\<close>, after its table-driven reference implementation: \<^verbatim>\<open>simpleMakeTable\<close>
  for the IEEE polynomial and \<^verbatim>\<open>simpleUpdate\<close>.
\<close>

definition IEEE :: "32 word" where
  "IEEE = 0xedb88320"

definition crc_shift :: "32 word \<Rightarrow> 32 word" where
  "crc_shift crc = (if crc AND 1 = 1 then drop_bit 1 crc XOR IEEE else drop_bit 1 crc)"

definition IEEETable :: "32 word list" where
  "IEEETable = map (\<lambda>i. (crc_shift ^^ 8) (of_nat i)) [0..<256]"

definition simpleUpdate :: "32 word \<Rightarrow> byte list \<Rightarrow> 32 word" where
  "simpleUpdate crc p =
     NOT (fold (\<lambda>v c. IEEETable ! unat ((ucast c :: byte) XOR v) XOR drop_bit 8 c) p (NOT crc))"

definition crc32_ChecksumIEEE :: "byte list \<Rightarrow> 32 word" where
  "crc32_ChecksumIEEE data = simpleUpdate 0 data"

text \<open>\<^verbatim>\<open>binary.BigEndian.PutUint32\<close> into a fresh slice of 4 bytes, and \<^verbatim>\<open>Uint32\<close>.\<close>

definition BigEndian_PutUint32 :: "32 word \<Rightarrow> byte list" where
  "BigEndian_PutUint32 v = [ucast (drop_bit 24 v), ucast (drop_bit 16 v), ucast (drop_bit 8 v), ucast v]"

definition BigEndian_Uint32 :: "byte list \<Rightarrow> 32 word" where
  "BigEndian_Uint32 b =
     ucast (b ! 3) OR push_bit 8 (ucast (b ! 2)) OR push_bit 16 (ucast (b ! 1))
       OR push_bit 24 (ucast (b ! 0))"

text \<open>\<^verbatim>\<open>strings.Join\<close>.\<close>

fun strings_Join :: "string list \<Rightarrow> string \<Rightarrow> string" where
  "strings_Join [] sep = []"
| "strings_Join [e] sep = e"
| "strings_Join (e # es) sep = e @ sep @ strings_Join es sep"

text \<open>\<^verbatim>\<open>strings.Index\<close>: the position of the first occurrence of \<open>sep\<close>, if any.\<close>

fun strings_Index :: "string \<Rightarrow> string \<Rightarrow> nat option" where
  "strings_Index [] sep = (if sep = [] then Some 0 else None)"
| "strings_Index (c # cs) sep =
     (if take (length sep) (c # cs) = sep then Some 0
      else map_option Suc (strings_Index cs sep))"

text \<open>
  The size \<^verbatim>\<open>utf8.DecodeRuneInString\<close> returns on a non-empty string: the length of a
  well-formed UTF-8 sequence at its start, and 1 on an invalid or cut-off one.
\<close>

definition byte_in :: "nat \<Rightarrow> nat \<Rightarrow> string \<Rightarrow> nat \<Rightarrow> bool" where
  "byte_in lo hi s k = (k < length s \<and> lo \<le> of_char (s ! k) \<and> of_char (s ! k) \<le> hi)"

definition utf8_size :: "string \<Rightarrow> nat" where
  "utf8_size s =
     (let b = (of_char (s ! 0) :: nat);
          two = (\<lambda>lo hi. if byte_in lo hi s 1 then 2 else 1);
          three = (\<lambda>lo hi. if byte_in lo hi s 1 \<and> byte_in 0x80 0xBF s 2 then 3 else 1);
          four = (\<lambda>lo hi. if byte_in lo hi s 1 \<and> byte_in 0x80 0xBF s 2 \<and> byte_in 0x80 0xBF s 3
                          then 4 else 1)
      in if b < 0xC2 then 1
         else if b \<le> 0xDF then two 0x80 0xBF
         else if b = 0xE0 then three 0xA0 0xBF
         else if b = 0xED then three 0x80 0x9F
         else if b \<le> 0xEF then three 0x80 0xBF
         else if b = 0xF0 then four 0x90 0xBF
         else if b \<le> 0xF3 then four 0x80 0xBF
         else if b = 0xF4 then four 0x80 0x8F
         else 1)"

text \<open>\<^verbatim>\<open>explode\<close> of package \<^verbatim>\<open>strings\<close>: the string cut into its UTF-8 sequences.\<close>

function explode :: "string \<Rightarrow> string list" where
  "explode s = (if s = [] then [] else take (utf8_size s) s # explode (drop (utf8_size s) s))"
  by pat_completeness auto
termination
proof (relation "measure length")
  show "wf (measure (length :: string \<Rightarrow> nat))" by simp
next
  fix s :: string
  assume "s \<noteq> []"
  moreover have "0 < utf8_size s"
    by (simp add: utf8_size_def Let_def)
  ultimately show "(drop (utf8_size s) s, s) \<in> measure length"
    by simp
qed

text \<open>
  \<^verbatim>\<open>genSplit\<close> for a separator that is not empty, as \<^verbatim>\<open>strings.Split\<close> calls it: cut at each
  occurrence of \<open>sep\<close> found from left to right, the rest being the last piece.
\<close>

function genSplit :: "string \<Rightarrow> string \<Rightarrow> string list" where
  "genSplit s sep =
     (case strings_Index s sep of
        None \<Rightarrow> [s]
      | Some m \<Rightarrow> if sep = [] then [s] else take m s # genSplit (drop (m + length sep) s) sep)"
  by pat_completeness auto
termination
proof (relation "measure (\<lambda>(s, sep). length s)")
  show "wf (measure (\<lambda>(s, sep). length s))" by simp
next
  have bound: "strings_Index s sep = Some m \<Longrightarrow> m + length sep \<le> length s"
    for s sep :: string and m
  proof (induction s arbitrary: m)
    case Nil
    then show ?case by (simp split: if_splits)
  next
    case (Cons c cs)
    show ?case
    proof (cases "take (length sep) (c # cs) = sep")
      case True
      then have "length (take (length sep) (c # cs)) = length sep"
        by simp
      then have "length sep \<le> length (c # cs)"
        by (auto simp: min_def split: if_splits)
      with True Cons.prems show ?thesis by simp
    next
      case False
      with Cons.prems obtain m' where "strings_Index cs sep = Some m'" "m = Suc m'"
        by auto
      with Cons.IH show ?thesis by simp
    qed
  qed
  fix s sep :: string and m
  assume "strings_Index s sep = Some m" "sep \<noteq> []"
  then have "m + length sep \<le> length s" "length sep \<noteq> 0"
    using bound by auto
  then have "length s - (m + length sep) < length s"
    by arith
  then show "((drop (m + length sep) s, sep), (s, sep)) \<in> measure (\<lambda>(s, sep). length s)"
    by simp
qed

definition strings_Split :: "string \<Rightarrow> string \<Rightarrow> string list" where
  "strings_Split s sep = (if sep = [] then explode s else genSplit s sep)"

section \<open>The bytewords codec\<close>

text \<open>
  \<^verbatim>\<open>decodeWord\<close>. The runes \<open>x\<close> and \<open>y\<close> are 32-bit integers between -97 and 158, so
  nothing wraps. After the length check \<^verbatim>\<open>word[3]\<close> is in range when \<open>wordLen\<close> is 4;
  for another \<open>wordLen\<close> the reads of \<^verbatim>\<open>word[0]\<close> and \<^verbatim>\<open>word[1]\<close> panic on a shorter word.
\<close>

definition decodeWord :: "string \<Rightarrow> int \<Rightarrow> failure + byte" where
  "decodeWord word wordLen =
     (if int (length word) \<noteq> wordLen then Inl (Error InvalidBytewordsLength)
      else if length word < 1 then Inl (Panic IndexRange)
      else if wordLen \<noteq> 4 \<and> length word < 2 then Inl (Panic IndexRange)
      else
        let x = unicode_ToLower (of_char (word ! 0)) - of_char CHR ''a'';
            y = (if wordLen = 4 then unicode_ToLower (of_char (word ! 3)) - of_char CHR ''a''
                 else unicode_ToLower (of_char (word ! 1)) - of_char CHR ''a'')
        in if x < 0 \<or> x \<ge> 26 \<or> y < 0 \<or> y \<ge> 26 then Inl (Error InvalidBytewords)
           else
             let offset = nat (y * 26 + x);
                 val = lookupTable ! offset
             in if val = - 1 then Inl (Error InvalidBytewords)
                else if wordLen = 4 then
                  (let expected = words ! nat val
                   in if word ! 1 \<noteq> expected ! 1 \<or> word ! 2 \<noteq> expected ! 2
                      then Inl (Error InvalidMiddleChars)
                      else Inr (word_of_int val))
                else Inr (word_of_int val))"

definition crc32Bytes :: "byte list \<Rightarrow> byte list" where
  "crc32Bytes data = BigEndian_PutUint32 (crc32_ChecksumIEEE data)"

definition appendCRC :: "byte list \<Rightarrow> byte list" where
  "appendCRC data = data @ crc32Bytes data"

text \<open>The loop of \<^verbatim>\<open>encodeMinimal\<close>: two \<^verbatim>\<open>WriteByte\<close> calls per byte.\<close>

fun writeMinimal :: "byte list \<Rightarrow> string" where
  "writeMinimal [] = []"
| "writeMinimal (b # bs) = (words ! unat b) ! 0 # (words ! unat b) ! 3 # writeMinimal bs"

definition encodeMinimal :: "byte list \<Rightarrow> string" where
  "encodeMinimal data = writeMinimal (appendCRC data)"

definition encodeStandard :: "byte list \<Rightarrow> string" where
  "encodeStandard data = strings_Join (map (\<lambda>b. words ! unat b) (appendCRC data)) '' ''"

text \<open>
  The loop of \<^verbatim>\<open>equal\<close> from index \<open>i\<close> on. It runs after the lengths were found equal,
  so \<^verbatim>\<open>b[i]\<close> is in range.
\<close>

function equal_from :: "nat \<Rightarrow> byte list \<Rightarrow> byte list \<Rightarrow> bool" where
  "equal_from i a b =
     (if i < length a then (if a ! i \<noteq> b ! i then False else equal_from (Suc i) a b) else True)"
  by pat_completeness auto
termination
  by (relation "measure (\<lambda>(i, a, b). length a - i)") auto

definition equal :: "byte list \<Rightarrow> byte list \<Rightarrow> bool" where
  "equal a b = (if length a \<noteq> length b then False else equal_from 0 a b)"

text \<open>
  The tokens of the minimal form: \<^verbatim>\<open>s[i:i+2]\<close> for \<open>i = 0, 2, 4, ...\<close> below \<^verbatim>\<open>len(s)\<close>.
  With one character left, \<open>i + 2\<close> is beyond the end of the string and the slice
  expression panics.
\<close>

fun chunks2 :: "string \<Rightarrow> failure + string list" where
  "chunks2 [] = Inr []"
| "chunks2 [c] = Inl (Panic SliceBounds)"
| "chunks2 (c # d # s) =
     (case chunks2 s of Inl f \<Rightarrow> Inl f | Inr tokens \<Rightarrow> Inr ([c, d] # tokens))"

definition tokenize :: "string \<Rightarrow> int \<Rightarrow> string \<Rightarrow> failure + string list" where
  "tokenize s wordLen sep = (if wordLen = 4 then Inr (strings_Split s sep) else chunks2 s)"

text \<open>The loop over the tokens: the first word that fails ends it.\<close>

fun decodeWords :: "string list \<Rightarrow> int \<Rightarrow> failure + byte list" where
  "decodeWords [] wordLen = Inr []"
| "decodeWords (t # ts) wordLen =
     (case decodeWord t wordLen of
        Inl f \<Rightarrow> Inl f
      | Inr b \<Rightarrow> (case decodeWords ts wordLen of Inl f \<Rightarrow> Inl f | Inr buf \<Rightarrow> Inr (b # buf)))"

definition decode :: "string \<Rightarrow> int \<Rightarrow> string \<Rightarrow> failure + byte list" where
  "decode s wordLen sep =
     (case tokenize s wordLen sep of
        Inl f \<Rightarrow> Inl f
      | Inr tokens \<Rightarrow>
          (case decodeWords tokens wordLen of
             Inl f \<Rightarrow> Inl f
           | Inr buf \<Rightarrow>
               if length buf < 5 then Inl (Error TooShort)
               else
                 let body = take (length buf - 4) buf;
                     checksum = drop (length buf - 4) buf
                 in if \<not> equal checksum (crc32Bytes body) then Inl (Error CrcMismatch)
                    else Inr body))"

section \<open>The decode pipeline\<close>

text \<open>
  What \<^verbatim>\<open>json.Unmarshal\<close> stores in a value of type \<^verbatim>\<open>any\<close>: \<^verbatim>\<open>nil\<close>, a \<^verbatim>\<open>bool\<close>, a
  \<^verbatim>\<open>float64\<close>, a \<^verbatim>\<open>string\<close>, a \<^verbatim>\<open>[]any\<close> or a \<^verbatim>\<open>map[string]any\<close>. The type \<open>'f\<close> stands
  for \<^verbatim>\<open>float64\<close>.
\<close>

datatype 'f json =
    JNull
  | JBool bool
  | JNumber 'f
  | JString string
  | JArray "'f json list"
  | JObject "(string \<times> 'f json) list"

text \<open>
  The packages \<^verbatim>\<open>Decode\<close> calls, which are not part of this repository, as parameters:
  \<^verbatim>\<open>cbor.Unmarshal\<close> into a \<^verbatim>\<open>[]byte\<close> and into an \<^verbatim>\<open>any\<close> (of type \<open>'v\<close>),
  \<^verbatim>\<open>gzip.NewReader\<close> (a reader of type \<open>'r\<close>) and \<^verbatim>\<open>io.ReadAll\<close>, \<^verbatim>\<open>json.MarshalIndent\<close>
  (its error is dropped by the caller, who reads the bytes it returned), the parser of
  \<^verbatim>\<open>json.Unmarshal\<close>, and the conversion \<^verbatim>\<open>int(f)\<close> of a \<^verbatim>\<open>float64\<close>. \<open>None\<close> is an error
  returned.
\<close>

record ('v, 'r, 'f) codecs =
  cborUnmarshalBytes :: "byte list \<Rightarrow> byte list option"
  gzipNewReader :: "byte list \<Rightarrow> 'r option"
  ioReadAll :: "'r \<Rightarrow> byte list option"
  cborUnmarshalAny :: "byte list \<Rightarrow> 'v option"
  jsonMarshalIndent :: "'v \<Rightarrow> byte list"
  jsonParse :: "byte list \<Rightarrow> 'f json option"
  floatToInt :: "'f \<Rightarrow> int"

definition andThen :: "failure + 'a \<Rightarrow> ('a \<Rightarrow> failure + 'b) \<Rightarrow> failure + 'b" where
  "andThen r k = (case r of Inl f \<Rightarrow> Inl f | Inr v \<Rightarrow> k v)"

text \<open>The index expression \<^verbatim>\<open>a[i]\<close> and the type assertions \<^verbatim>\<open>v.(T)\<close>, which panic.\<close>

definition index :: "'a list \<Rightarrow> nat \<Rightarrow> failure + 'a" where
  "index a i = (if i < length a then Inr (a ! i) else Inl (Panic IndexRange))"

definition asFloat64 :: "'f json \<Rightarrow> failure + 'f" where
  "asFloat64 v = (case v of JNumber f \<Rightarrow> Inr f | _ \<Rightarrow> Inl (Panic TypeAssertion))"

definition asString :: "'f json \<Rightarrow> failure + string" where
  "asString v = (case v of JString s \<Rightarrow> Inr s | _ \<Rightarrow> Inl (Panic TypeAssertion))"

definition asBool :: "'f json \<Rightarrow> failure + bool" where
  "asBool v = (case v of JBool b \<Rightarrow> Inr b | _ \<Rightarrow> Inl (Panic TypeAssertion))"

definition asSlice :: "'f json \<Rightarrow> failure + 'f json list" where
  "asSlice v = (case v of JArray a \<Rightarrow> Inr a | _ \<Rightarrow> Inl (Panic TypeAssertion))"

text \<open>
  \<^verbatim>\<open>json.Unmarshal([]byte(j), &raw)\<close> with \<^verbatim>\<open>raw\<close> a \<^verbatim>\<open>[]any\<close>: an array gives its
  elements, \<^verbatim>\<open>null\<close> leaves the slice \<^verbatim>\<open>nil\<close>, and a syntax error or any other value is an
  error, which the caller passes to \<^verbatim>\<open>panic\<close>.
\<close>

definition unmarshalRaw :: "('v, 'r, 'f) codecs \<Rightarrow> byte list \<Rightarrow> failure + 'f json list" where
  "unmarshalRaw C j =
     (case jsonParse C j of
        None \<Rightarrow> Inl (Panic PanicErr)
      | Some JNull \<Rightarrow> Inr []
      | Some (JArray a) \<Rightarrow> Inr a
      | Some _ \<Rightarrow> Inl (Panic PanicErr))"

text \<open>The \<^verbatim>\<open>WalletInfo\<close> literal: \<^verbatim>\<open>w[0].(string)\<close> to \<^verbatim>\<open>w[6].(string)\<close>, in this order.\<close>

definition walletOf :: "'f json list \<Rightarrow> failure + WalletInfo" where
  "walletOf w =
     andThen (andThen (index w 0) asString) (\<lambda>path.
     andThen (andThen (index w 1) asString) (\<lambda>chain.
     andThen (andThen (index w 2) asString) (\<lambda>name.
     andThen (andThen (index w 3) asBool) (\<lambda>i1.
     andThen (andThen (index w 4) asBool) (\<lambda>i2.
     andThen (andThen (index w 5) asString) (\<lambda>some.
     andThen (andThen (index w 6) asString) (\<lambda>xpub.
       Inr \<lparr>DerivationPath = path, ChainCode = chain, Name = name, Internal1 = i1,
            Internal2 = i2, SomeBytes = some, XPub = xpub\<rparr>)))))))"

text \<open>
  The body of the loop over \<^verbatim>\<open>accList\<close>: \<^verbatim>\<open>arr := a.([]any)\<close>, \<^verbatim>\<open>w := arr[4].([]any)\<close>, then
  the \<^verbatim>\<open>Account\<close> literal.
\<close>

definition accountOf :: "('f \<Rightarrow> int) \<Rightarrow> 'f json \<Rightarrow> failure + Account" where
  "accountOf toInt a =
     andThen (asSlice a) (\<lambda>arr.
     andThen (andThen (index arr 4) asSlice) (\<lambda>w.
     andThen (andThen (index arr 0) asFloat64) (\<lambda>ident.
     andThen (andThen (index arr 1) asFloat64) (\<lambda>idx.
     andThen (andThen (index arr 2) asString) (\<lambda>ty.
     andThen (andThen (index arr 3) asFloat64) (\<lambda>block.
     andThen (walletOf w) (\<lambda>wallet.
       Inr \<lparr>ID = toInt ident, Index = toInt idx, Type = ty, Block = toInt block,
            Wallet = wallet\<rparr>)))))))"

fun accountsOf :: "('f \<Rightarrow> int) \<Rightarrow> 'f json list \<Rightarrow> failure + Account list" where
  "accountsOf toInt [] = Inr []"
| "accountsOf toInt (a # accList) =
     andThen (accountOf toInt a) (\<lambda>account.
     andThen (accountsOf toInt accList) (\<lambda>accounts. Inr (account # accounts)))"

text \<open>
  The record mapping, from \<^verbatim>\<open>version := int(raw[0].(float64))\<close> to the \<^verbatim>\<open>Root\<close> returned.
\<close>

definition rootOf :: "('f \<Rightarrow> int) \<Rightarrow> 'f json list \<Rightarrow> failure + Root" where
  "rootOf toInt raw =
     andThen (andThen (index raw 0) asFloat64) (\<lambda>version.
     andThen (andThen (index raw 1) asSlice) (\<lambda>accList.
     andThen (accountsOf toInt accList) (\<lambda>accounts.
       Inr \<lparr>Version = toInt version, Accounts = accounts\<rparr>)))"

text \<open>
  \<^verbatim>\<open>Decode\<close>. An error of one of the first stages goes to \<^verbatim>\<open>log.Fatal\<close>; a panic inside
  \<^verbatim>\<open>decode\<close> is not an error value and goes on as a panic.
\<close>

definition Decode :: "('v, 'r, 'f) codecs \<Rightarrow> string \<Rightarrow> failure + Root" where
  "Decode C input =
     (case decode input 2 [] of
        Inl (Error e) \<Rightarrow> Inl (Fatal BytewordsDecode)
      | Inl f \<Rightarrow> Inl f
      | Inr decoded \<Rightarrow>
     (case cborUnmarshalBytes C decoded of
        None \<Rightarrow> Inl (Fatal CborOuter)
      | Some outer \<Rightarrow>
     (case gzipNewReader C outer of
        None \<Rightarrow> Inl (Fatal GzipReader)
      | Some gr \<Rightarrow>
     (case ioReadAll C gr of
        None \<Rightarrow> Inl (Fatal GzipRead)
      | Some unzipped \<Rightarrow>
     (case cborUnmarshalAny C unzipped of
        None \<Rightarrow> Inl (Fatal CborInner)
      | Some inner \<Rightarrow>
          andThen (unmarshalRaw C (jsonMarshalIndent C inner)) (rootOf (floatToInt C)))))))"

section \<open>The package variables as state\<close>

text \<open>
  The two package variables, \<^verbatim>\<open>var words [256]string\<close> and
  \<^verbatim>\<open>var lookupTable [26 * 26]int16\<close>, as a state that every call receives and hands
  on. Below, the functions of the decoding direction are written once more over this
  state: they read the tables from it, and since no statement of theirs assigns to
  either variable, each of them returns the state it was given.
\<close>

record tables =
  t_words :: "string list"
  t_lookup :: "int list"

text \<open>The state that \<^verbatim>\<open>init\<close> leaves.\<close>

definition init_tables :: tables where
  "init_tables = \<lparr>t_words = words, t_lookup = lookupTable\<rparr>"

text \<open>
  \<^verbatim>\<open>decodeWord\<close> over the state. On tables other than those of \<^verbatim>\<open>init\<close> the reads
  \<^verbatim>\<open>lookupTable[offset]\<close>, \<^verbatim>\<open>words[val]\<close>, \<^verbatim>\<open>expected[1]\<close> and \<^verbatim>\<open>expected[2]\<close> can be out
  of range, which is a panic.
\<close>

definition decodeWord_st :: "string \<Rightarrow> int \<Rightarrow> tables \<Rightarrow> (failure + byte) \<times> tables" where
  "decodeWord_st word wordLen T =
     (if int (length word) \<noteq> wordLen then (Inl (Error InvalidBytewordsLength), T)
      else if length word < 1 then (Inl (Panic IndexRange), T)
      else if wordLen \<noteq> 4 \<and> length word < 2 then (Inl (Panic IndexRange), T)
      else
        let x = unicode_ToLower (of_char (word ! 0)) - of_char CHR ''a'';
            y = (if wordLen = 4 then unicode_ToLower (of_char (word ! 3)) - of_char CHR ''a''
                 else unicode_ToLower (of_char (word ! 1)) - of_char CHR ''a'')
        in if x < 0 \<or> x \<ge> 26 \<or> y < 0 \<or> y \<ge> 26 then (Inl (Error InvalidBytewords), T)
           else
             let offset = nat (y * 26 + x)
             in if length (t_lookup T) \<le> offset then (Inl (Panic IndexRange), T)
                else
                  let val = t_lookup T ! offset
                  in if val = - 1 then (Inl (Error InvalidBytewords), T)
                     else if wordLen = 4 then
                       (if val < 0 \<or> int (length (t_words T)) \<le> val
                        then (Inl (Panic IndexRange), T)
                        else
                          let expected = t_words T ! nat val
                          in if length expected < 2 then (Inl (Panic IndexRange), T)
                             else if word ! 1 \<noteq> expected ! 1
                             then (Inl (Error InvalidMiddleChars), T)
                             else if length expected < 3 then (Inl (Panic IndexRange), T)
                             else if word ! 2 \<noteq> expected ! 2
                             then (Inl (Error InvalidMiddleChars), T)
                             else (Inr (word_of_int val), T))
                     else (Inr (word_of_int val), T))"

fun decodeWords_st :: "string list \<Rightarrow> int \<Rightarrow> tables \<Rightarrow> (failure + byte list) \<times> tables" where
  "decodeWords_st [] wordLen T = (Inr [], T)"
| "decodeWords_st (t # ts) wordLen T =
     (case decodeWord_st t wordLen T of
        (Inl f, T') \<Rightarrow> (Inl f, T')
      | (Inr b, T') \<Rightarrow>
          (case decodeWords_st ts wordLen T' of
             (Inl f, T'') \<Rightarrow> (Inl f, T'')
           | (Inr buf, T'') \<Rightarrow> (Inr (b # buf), T'')))"

definition decode_st :: "string \<Rightarrow> int \<Rightarrow> string \<Rightarrow> tables \<Rightarrow> (failure + byte list) \<times> tables" where
  "decode_st s wordLen sep T =
     (case tokenize s wordLen sep of
        Inl f \<Rightarrow> (Inl f, T)
      | Inr tokens \<Rightarrow>
          (case decodeWords_st tokens wordLen T of
             (Inl f, T') \<Rightarrow> (Inl f, T')
           | (Inr buf, T') \<Rightarrow>
               if length buf < 5 then (Inl (Error TooShort), T')
               else
                 let body = take (length buf - 4) buf;
                     checksum = drop (length buf - 4) buf
                 in if \<not> equal checksum (crc32Bytes body) then (Inl (Error CrcMismatch), T')
                    else (Inr body, T')))"

text \<open>
  \<^verbatim>\<open>Decode\<close> over the state; after \<^verbatim>\<open>log.Fatal\<close> the state is the one at the exit of the
  process. The stages after the bytewords decoding do not touch the tables.
\<close>

definition Decode_st :: "('v, 'r, 'f) codecs \<Rightarrow> string \<Rightarrow> tables \<Rightarrow> (failure + Root) \<times> tables" where
  "Decode_st C input T =
     (case decode_st input 2 [] T of
        (Inl (Error e), T') \<Rightarrow> (Inl (Fatal BytewordsDecode), T')
      | (Inl f, T') \<Rightarrow> (Inl f, T')
      | (Inr decoded, T') \<Rightarrow>
     (case cborUnmarshalBytes C decoded of
        None \<Rightarrow> (Inl (Fatal CborOuter), T')
      | Some outer \<Rightarrow>
     (case gzipNewReader C outer of
        None \<Rightarrow> (Inl (Fatal GzipReader), T')
      | Some gr \<Rightarrow>
     (case ioReadAll C gr of
        None \<Rightarrow> (Inl (Fatal GzipRead), T')
      | Some unzipped \<Rightarrow>
     (case cborUnmarshalAny C unzipped of
        None \<Rightarrow> (Inl (Fatal CborInner), T')
      | Some inner \<Rightarrow>
          (andThen (unmarshalRaw C (jsonMarshalIndent C inner)) (rootOf (floatToInt C)), T'))))))"

section \<open>Auxiliary definitions for the proofs\<close>

text \<open>
  Not part of the program: a list cut into pieces of four elements, by which the word
  table is computed in one pass.
\<close>

fun chunks4 :: "'a list \<Rightarrow> 'a list list" where
  "chunks4 (a # b # c # d # r) = [a, b, c, d] # chunks4 r"
| "chunks4 _ = []"

text \<open>
  Not part of the program: the property of a word that its length is 4 and that the runes
  \<open>x\<close> and \<open>y\<close> which \<^const>\<open>decodeWord\<close> computes from its ends are letters and lead
  to the slot that \<^verbatim>\<open>init\<close> filled for it.
\<close>

definition ends_ok :: "string \<Rightarrow> bool" where
  "ends_ok w =
     (let x = unicode_ToLower (of_char (w ! 0)) - of_char CHR ''a'';
          y = unicode_ToLower (of_char (w ! 3)) - of_char CHR ''a''
      in length w = 4 \<and> 0 \<le> x \<and> x < 26 \<and> 0 \<le> y \<and> y < 26 \<and> nat (y * 26 + x) = offset_of w)"

section \<open>The word table, computed\<close>

lemma slices_chunks4:
  "length xs = 4 * n \<Longrightarrow> map (\<lambda>i. take 4 (drop (i * 4) xs)) [0..<n] = chunks4 xs"
proof (induction n arbitrary: xs)
  case 0
  then show ?case by simp
next
  case (Suc n)
  then obtain a b c d r where xs: "xs = a # b # c # d # r" and r: "length r = 4 * n"
    by (cases xs rule: chunks4.cases) auto
  have skip: "drop (4 + k) (a # b # c # d # r) = drop k r" for k
    by (simp add: eval_nat_numeral)
  have "map (\<lambda>i. take 4 (drop (i * 4) xs)) [0..<Suc n]
      = take 4 xs # map (\<lambda>i. take 4 (drop (Suc i * 4) xs)) [0..<n]"
    by (simp only: map_upt_Suc) simp
  also have "\<dots> = [a, b, c, d] # map (\<lambda>i. take 4 (drop (i * 4) r)) [0..<n]"
    using skip by (simp add: xs)
  finally show ?case using Suc.IH [OF r] by (simp add: xs)
qed

lemma length_bytewords: "length bytewords = 1024"
  unfolding bytewords_def by simp

lemma words_eq:
  "words =
    [''able'', ''acid'', ''also'', ''apex'', ''aqua'', ''arch'', ''atom'', ''aunt'',
     ''away'', ''axis'', ''back'', ''bald'', ''barn'', ''belt'', ''beta'', ''bias'',
     ''blue'', ''body'', ''brag'', ''brew'', ''bulb'', ''buzz'', ''calm'', ''cash'',
     ''cats'', ''chef'', ''city'', ''claw'', ''code'', ''cola'', ''cook'', ''cost'',
     ''crux'', ''curl'', ''cusp'', ''cyan'', ''dark'', ''data'', ''days'', ''deli'',
     ''dice'', ''diet'', ''door'', ''down'', ''draw'', ''drop'', ''drum'', ''dull'',
     ''duty'', ''each'', ''easy'', ''echo'', ''edge'', ''epic'', ''even'', ''exam'',
     ''exit'', ''eyes'', ''fact'', ''fair'', ''fern'', ''figs'', ''film'', ''fish'',
     ''fizz'', ''flap'', ''flew'', ''flux'', ''foxy'', ''free'', ''frog'', ''fuel'',
     ''fund'', ''gala'', ''game'', ''gear'', ''gems'', ''gift'', ''girl'', ''glow'',
     ''good'', ''gray'', ''grim'', ''guru'', ''gush'', ''gyro'', ''half'', ''hang'',
     ''hard'', ''hawk'', ''heat'', ''help'', ''high'', ''hill'', ''holy'', ''hope'',
     ''horn'', ''huts'', ''iced'', ''idea'', ''idle'', ''inch'', ''inky'', ''into'',
     ''iris'', ''iron'', ''item'', ''jade'', ''jazz'', ''join'', ''jolt'', ''jowl'',
     ''judo'', ''jugs'', ''jump'', ''junk'', ''jury'', ''keep'', ''keno'', ''kept'',
     ''keys'', ''kick'', ''kiln'', ''king'', ''kite'', ''kiwi'', ''knob'', ''lamb'',
     ''lava'', ''lazy'', ''leaf'', ''legs'', ''liar'', ''limp'', ''lion'', ''list'',
     ''logo'', ''loud'', ''love'', ''luau'', ''luck'', ''lung'', ''main'', ''many'',
     ''math'', ''maze'', ''memo'', ''menu'', ''meow'', ''mild'', ''mint'', ''miss'',
     ''monk'', ''nail'', ''navy'', ''need'', ''news'', ''next'', ''noon'', ''note'',
     ''numb'', ''obey'', ''oboe'', ''omit'', ''onyx'', ''open'', ''oval'', ''owls'',
     ''paid'', ''part'', ''peck'', ''play'', ''plus'', ''poem'', ''pool'', ''pose'',
     ''puff'', ''puma'', ''purr'', ''quad'', ''quiz'', ''race'', ''ramp'', ''real'',
     ''redo'', ''rich'', ''road'', ''rock'', ''roof'', ''ruby'', ''ruin'', ''runs'',
     ''rust'', ''safe'', ''saga'', ''scar'', ''sets'', ''silk'', ''skew'', ''slot'',
     ''soap'', ''solo'', ''song'', ''stub'', ''surf'', ''swan'', ''taco'', ''task'',
     ''taxi'', ''tent'', ''tied'', ''time'', ''tiny'', ''toil'', ''tomb'', ''toys'',
     ''trip'', ''tuna'', ''twin'', ''ugly'', ''undo'', ''unit'', ''urge'', ''user'',
     ''vast'', ''very'', ''veto'', ''vial'', ''vibe'', ''view'', ''visa'', ''void'',
     ''vows'', ''wall'', ''wand'', ''warm'', ''wasp'', ''wave'', ''waxy'', ''webs'',
     ''what'', ''when'', ''whiz'', ''wolf'', ''work'', ''yank'', ''yawn'', ''yell'',
     ''yoga'', ''yurt'', ''zaps'', ''zero'', ''zest'', ''zinc'', ''zone'', ''zoom'']"
proof -
  have "words = chunks4 bytewords"
    unfolding words_def using slices_chunks4 [of bytewords 256] length_bytewords by simp
  also have "\<dots> =
    [''able'', ''acid'', ''also'', ''apex'', ''aqua'', ''arch'', ''atom'', ''aunt'',
     ''away'', ''axis'', ''back'', ''bald'', ''barn'', ''belt'', ''beta'', ''bias'',
     ''blue'', ''body'', ''brag'', ''brew'', ''bulb'', ''buzz'', ''calm'', ''cash'',
     ''cats'', ''chef'', ''city'', ''claw'', ''code'', ''cola'', ''cook'', ''cost'',
     ''crux'', ''curl'', ''cusp'', ''cyan'', ''dark'', ''data'', ''days'', ''deli'',
     ''dice'', ''diet'', ''door'', ''down'', ''draw'', ''drop'', ''drum'', ''dull'',
     ''duty'', ''each'', ''easy'', ''echo'', ''edge'', ''epic'', ''even'', ''exam'',
     ''exit'', ''eyes'', ''fact'', ''fair'', ''fern'', ''figs'', ''film'', ''fish'',
     ''fizz'', ''flap'', ''flew'', ''flux'', ''foxy'', ''free'', ''frog'', ''fuel'',
     ''fund'', ''gala'', ''game'', ''gear'', ''gems'', ''gift'', ''girl'', ''glow'',
     ''good'', ''gray'', ''grim'', ''guru'', ''gush'', ''gyro'', ''half'', ''hang'',
     ''hard'', ''hawk'', ''heat'', ''help'', ''high'', ''hill'', ''holy'', ''hope'',
     ''horn'', ''huts'', ''iced'', ''idea'', ''idle'', ''inch'', ''inky'', ''into'',
     ''iris'', ''iron'', ''item'', ''jade'', ''jazz'', ''join'', ''jolt'', ''jowl'',
     ''judo'', ''jugs'', ''jump'', ''junk'', ''jury'', ''keep'', ''keno'', ''kept'',
     ''keys'', ''kick'', ''kiln'', ''king'', ''kite'', ''kiwi'', ''knob'', ''lamb'',
     ''lava'', ''lazy'', ''leaf'', ''legs'', ''liar'', ''limp'', ''lion'', ''list'',
     ''logo'', ''loud'', ''love'', ''luau'', ''luck'', ''lung'', ''main'', ''many'',
     ''math'', ''maze'', ''memo'', ''menu'', ''meow'', ''mild'', ''mint'', ''miss'',
     ''monk'', ''nail'', ''navy'', ''need'', ''news'', ''next'', ''noon'', ''note'',
     ''numb'', ''obey'', ''oboe'', ''omit'', ''onyx'', ''open'', ''oval'', ''owls'',
     ''paid'', ''part'', ''peck'', ''play'', ''plus'', ''poem'', ''pool'', ''pose'',
     ''puff'', ''puma'', ''purr'', ''quad'', ''quiz'', ''race'', ''ramp'', ''real'',
     ''redo'', ''rich'', ''road'', ''rock'', ''roof'', ''ruby'', ''ruin'', ''runs'',
     ''rust'', ''safe'', ''saga'', ''scar'', ''sets'', ''silk'', ''skew'', ''slot'',
     ''soap'', ''solo'', ''song'', ''stub'', ''surf'', ''swan'', ''taco'', ''task'',
     ''taxi'', ''tent'', ''tied'', ''time'', ''tiny'', ''toil'', ''tomb'', ''toys'',
     ''trip'', ''tuna'', ''twin'', ''ugly'', ''undo'', ''unit'', ''urge'', ''user'',
     ''vast'', ''very'', ''veto'', ''vial'', ''vibe'', ''view'', ''visa'', ''void'',
     ''vows'', ''wall'', ''wand'', ''warm'', ''wasp'', ''wave'', ''waxy'', ''webs'',
     ''what'', ''when'', ''whiz'', ''wolf'', ''work'', ''yank'', ''yawn'', ''yell'',
     ''yoga'', ''yurt'', ''zaps'', ''zero'', ''zest'', ''zinc'', ''zone'', ''zoom'']"
    unfolding bytewords_def by simp
  finally show ?thesis .
qed

lemma length_words: "length words = 256"
  by (simp add: words_def)

lemma words_ends_ok: "list_all ends_ok words"
  unfolding words_eq by (simp add: ends_ok_def offset_of_def unicode_ToLower_def)

lemma offsets_distinct: "distinct (map offset_of words)"
  unfolding words_eq by (simp add: offset_of_def)

section \<open>The lookup table\<close>

lemma length_fill_lookup: "length (fill_lookup i ws t) = length t"
  by (induction ws arbitrary: i t) auto

lemma fill_lookup_other:
  "k \<notin> offset_of ` set ws \<Longrightarrow> fill_lookup i ws t ! k = t ! k"
  by (induction ws arbitrary: i t) auto

lemma fill_lookup_hit:
  "distinct (map offset_of ws) \<Longrightarrow> j < length ws \<Longrightarrow> \<forall>w \<in> set ws. offset_of w < length t
     \<Longrightarrow> fill_lookup i ws t ! offset_of (ws ! j) = int (i + j)"
proof (induction ws arbitrary: i t j)
  case Nil
  then show ?case by simp
next
  case (Cons w ws)
  show ?case
  proof (cases j)
    case 0
    from Cons.prems have "offset_of w \<notin> offset_of ` set ws" "offset_of w < length t"
      by auto
    then show ?thesis using 0 by (simp add: fill_lookup_other)
  next
    case (Suc j')
    from Cons.prems Suc have "distinct (map offset_of ws)" "j' < length ws"
      "\<forall>v \<in> set ws. offset_of v < length (t[offset_of w := int i])"
      by auto
    from Cons.IH [OF this, of "Suc i"] show ?thesis using Suc by simp
  qed
qed

lemma word_nth_ends_ok: "i < 256 \<Longrightarrow> ends_ok (words ! i)"
  using words_ends_ok length_words by (simp add: list_all_length)

lemma offset_of_word_bound: "w \<in> set words \<Longrightarrow> offset_of w < 676"
proof -
  assume "w \<in> set words"
  then have "ends_ok w"
    using words_ends_ok by (simp add: list_all_iff)
  then show ?thesis
    by (auto simp: ends_ok_def Let_def)
qed

lemma length_lookupTable: "length lookupTable = 676"
  by (simp add: lookupTable_def length_fill_lookup)

lemma lookup_word: "i < 256 \<Longrightarrow> lookupTable ! offset_of (words ! i) = int i"
  unfolding lookupTable_def
  using fill_lookup_hit [OF offsets_distinct, of i "replicate (26 * 26) (- 1)" 0]
    offset_of_word_bound length_words
  by simp

section \<open>Words of the table decode to their bytes\<close>

lemma unat_byte_less: "unat (b :: byte) < 256"
  using unsigned_less [of b, where 'a = nat] by simp

lemma decodeWord_standard: "decodeWord (words ! unat b) 4 = Inr b"
proof -
  let ?w = "words ! unat b"
  have ok: "ends_ok ?w"
    by (rule word_nth_ends_ok) (rule unat_byte_less)
  have val: "lookupTable ! offset_of ?w = int (unat b)"
    by (rule lookup_word) (rule unat_byte_less)
  have nonneg: "uint b \<noteq> - 1"
    using uint_ge_0 [of b] by arith
  show ?thesis
    using ok val nonneg by (simp add: decodeWord_def ends_ok_def Let_def)
qed

lemma decodeWord_minimal:
  "decodeWord [words ! unat b ! 0, words ! unat b ! 3] 2 = Inr b"
proof -
  let ?w = "words ! unat b"
  have ok: "ends_ok ?w"
    by (rule word_nth_ends_ok) (rule unat_byte_less)
  have val: "lookupTable ! offset_of ?w = int (unat b)"
    by (rule lookup_word) (rule unat_byte_less)
  have nonneg: "uint b \<noteq> - 1"
    using uint_ge_0 [of b] by arith
  show ?thesis
    using ok val nonneg by (simp add: decodeWord_def ends_ok_def Let_def)
qed

lemma length_word: "length (words ! unat (b :: byte)) = 4"
  using word_nth_ends_ok [OF unat_byte_less, of b] by (simp add: ends_ok_def Let_def)

text \<open>
  C3. After the table is built, distinct bytes have distinct words, and for every byte the
  slot of the lookup table that the first and last character of its word select holds
  that byte; \<^const>\<open>decodeWord\<close> on these two characters returns it.
\<close>

theorem wordtable_bijection:
  "(a \<noteq> b \<longrightarrow> words ! unat a \<noteq> words ! unat b) \<and>
   lookupTable ! offset_of (words ! unat b) = uint b \<and>
   decodeWord [words ! unat b ! 0, words ! unat b ! 3] 2 = Inr b"
proof (intro conjI impI)
  assume "a \<noteq> b"
  show "words ! unat a \<noteq> words ! unat b"
  proof
    assume "words ! unat a = words ! unat b"
    then have "decodeWord (words ! unat a) 4 = decodeWord (words ! unat b) 4"
      by simp
    then have "a = b"
      by (simp add: decodeWord_standard)
    with \<open>a \<noteq> b\<close> show False by simp
  qed
next
  show "lookupTable ! offset_of (words ! unat b) = uint b"
    using lookup_word [OF unat_byte_less, of b] by simp
next
  show "decodeWord [words ! unat b ! 0, words ! unat b ! 3] 2 = Inr b"
    by (rule decodeWord_minimal)
qed

lemma word_0: "words ! 0 = ''able''"
  unfolding words_eq by simp

lemma word_1: "words ! Suc 0 = ''acid''"
  unfolding words_eq by simp

theorem wordtable_bijection_witness:
  "(0 :: byte) \<noteq> 1 \<and> words ! unat (0 :: byte) \<noteq> words ! unat (1 :: byte) \<and>
   lookupTable ! offset_of ''acid'' = 1 \<and> decodeWord ''ad'' 2 = Inr 1"
  using wordtable_bijection [of 0 1] by (simp add: word_0 word_1)

section \<open>Lengths of the encodings\<close>

lemma length_crc32Bytes: "length (crc32Bytes data) = 4"
  by (simp add: crc32Bytes_def BigEndian_PutUint32_def)

lemma length_appendCRC: "length (appendCRC data) = length data + 4"
  by (simp add: appendCRC_def length_crc32Bytes)

lemma length_writeMinimal: "length (writeMinimal bs) = 2 * length bs"
  by (induction bs) auto

lemma length_Join_words:
  "ts \<noteq> [] \<Longrightarrow> \<forall>t \<in> set ts. length t = 4 \<Longrightarrow> length (strings_Join ts [c]) + 1 = 5 * length ts"
  by (induction ts "[c]" rule: strings_Join.induct) auto

text \<open>
  C10. The minimal encoding of \<open>n\<close> bytes has \<open>2 * (n + 4)\<close> characters, the standard
  encoding \<open>5 * (n + 4) - 1\<close>.
\<close>

theorem encode_lengths:
  "length (encodeMinimal B) = 2 * (length B + 4) \<and>
   length (encodeStandard B) = 5 * (length B + 4) - 1"
proof
  show "length (encodeMinimal B) = 2 * (length B + 4)"
    by (simp add: encodeMinimal_def length_writeMinimal length_appendCRC)
next
  let ?ts = "map (\<lambda>b. words ! unat b) (appendCRC B)"
  have "?ts \<noteq> []"
    using length_appendCRC [of B] by auto
  moreover have "\<forall>t \<in> set ?ts. length t = 4"
    by (auto simp: length_word)
  ultimately have "length (strings_Join ?ts '' '') + 1 = 5 * length ?ts"
    by (rule length_Join_words)
  then show "length (encodeStandard B) = 5 * (length B + 4) - 1"
    by (simp add: encodeStandard_def length_appendCRC)
qed

section \<open>The checksum\<close>

lemma BigEndian_bytes:
  "(ucast (ucast v :: byte) OR push_bit 8 (ucast (ucast (drop_bit 8 v) :: byte))
      OR push_bit 16 (ucast (ucast (drop_bit 16 v) :: byte))
      OR push_bit 24 (ucast (ucast (drop_bit 24 v) :: byte)) :: 32 word) = v"
  (is "?lhs = v")
proof (rule bit_word_eqI)
  fix n
  assume "n < LENGTH(32)"
  then consider "n < 8" | "8 \<le> n" "n < 16" | "16 \<le> n" "n < 24" | "24 \<le> n" "n < 32"
    by fastforce
  then show "bit ?lhs n = bit v n"
    by cases (auto simp: bit_simps)
qed

lemma BigEndian_Uint32_PutUint32: "BigEndian_Uint32 (BigEndian_PutUint32 v) = v"
  using BigEndian_bytes [of v] by (simp add: BigEndian_Uint32_def BigEndian_PutUint32_def)

lemma equal_from_iff:
  "length a = length b \<Longrightarrow> equal_from i a b = (drop i a = drop i b)"
proof (induction i a b rule: equal_from.induct)
  case (1 i a b)
  show ?case
  proof (cases "i < length a")
    case True
    then have a: "drop i a = a ! i # drop (Suc i) a" and b: "drop i b = b ! i # drop (Suc i) b"
      using "1.prems" by (simp_all add: Cons_nth_drop_Suc)
    show ?thesis
    proof (cases "a ! i = b ! i")
      case True
      with "1.IH" \<open>i < length a\<close> "1.prems" a b show ?thesis
        by (subst equal_from.simps) simp
    next
      case False
      with \<open>i < length a\<close> a b show ?thesis
        by (subst equal_from.simps) simp
    qed
  next
    case False
    with "1.prems" show ?thesis
      by (subst equal_from.simps) simp
  qed
qed

lemma equal_iff: "equal a b = (a = b)"
  using equal_from_iff [of a b 0] by (auto simp: equal_def)

lemma funpow8: "(f ^^ 8) x = f (f (f (f (f (f (f (f x)))))))"
  by (simp add: eval_nat_numeral)

lemma IEEETable_nth: "k < 256 \<Longrightarrow> IEEETable ! k = (crc_shift ^^ 8) (of_nat k)"
  by (simp add: IEEETable_def)

lemma ChecksumIEEE_fold:
  "crc32_ChecksumIEEE p =
     NOT (fold (\<lambda>v c. IEEETable ! unat ((ucast c :: byte) XOR v) XOR drop_bit 8 c) p 0xFFFFFFFF)"
proof -
  have "(NOT 0 :: 32 word) = 0xFFFFFFFF"
    by simp
  then show ?thesis
    by (simp only: crc32_ChecksumIEEE_def simpleUpdate_def)
qed

lemmas crc_eval = ChecksumIEEE_fold IEEETable_nth funpow8 crc_shift_def IEEE_def

lemma crc32Bytes_empty: "crc32Bytes [] = [0, 0, 0, 0]"
  by (simp add: crc32Bytes_def BigEndian_PutUint32_def crc_eval)

lemma crc32Bytes_zero: "crc32Bytes [0] = [0xD2, 0x02, 0xEF, 0x8D]"
  by (simp add: crc32Bytes_def BigEndian_PutUint32_def crc_eval)

lemma crc32Bytes_check: "crc32Bytes (map of_char ''123456789'') = [0xCB, 0xF4, 0x39, 0x26]"
  by (simp add: crc32Bytes_def BigEndian_PutUint32_def crc_eval)

text \<open>
  C9. The checksum of a body is 4 bytes, which read as a big-endian number are the CRC-32
  of the body (for the text \<open>123456789\<close> the check value \<open>CBF43926\<close> of the IEEE
  polynomial, highest byte first); it is a function of the body alone; and \<^const>\<open>equal\<close>,
  which \<^const>\<open>decode\<close> applies to the stored and the recomputed checksum, holds exactly
  when the two are the same bytes.
\<close>

theorem checksum_big_endian_crc32:
  "length (crc32Bytes body) = 4 \<and>
   BigEndian_Uint32 (crc32Bytes body) = crc32_ChecksumIEEE body \<and>
   crc32Bytes (map of_char ''123456789'') = [0xCB, 0xF4, 0x39, 0x26] \<and>
   equal checksum (crc32Bytes body) = (checksum = crc32Bytes body)"
proof (intro conjI)
  show "length (crc32Bytes body) = 4"
    by (rule length_crc32Bytes)
  show "BigEndian_Uint32 (crc32Bytes body) = crc32_ChecksumIEEE body"
    by (simp add: crc32Bytes_def BigEndian_Uint32_PutUint32)
  show "crc32Bytes (map of_char ''123456789'') = [0xCB, 0xF4, 0x39, 0x26]"
    by (rule crc32Bytes_check)
  show "equal checksum (crc32Bytes body) = (checksum = crc32Bytes body)"
    by (rule equal_iff)
qed

section \<open>Decoding\<close>

lemma decode_of_buf:
  "tokenize s wordLen sep = Inr tokens \<Longrightarrow> decodeWords tokens wordLen = Inr buf \<Longrightarrow>
   decode s wordLen sep =
     (if length buf < 5 then Inl (Error TooShort)
      else if drop (length buf - 4) buf \<noteq> crc32Bytes (take (length buf - 4) buf)
      then Inl (Error CrcMismatch)
      else Inr (take (length buf - 4) buf))"
  by (simp add: decode_def equal_iff Let_def)

text \<open>
  C4. Once the tokens of the input have decoded to the bytes \<open>buf\<close>, in either variant:
  with fewer than 5 bytes \<^const>\<open>decode\<close> fails (too short); with at least 5 bytes whose last
  4 are not the checksum of the bytes before them it fails (crc mismatch); otherwise it
  returns the bytes before the last 4. So a body it returns, followed by its checksum, is
  \<open>buf\<close>.
\<close>

theorem decode_checksum_rules:
  assumes "tokenize s wordLen sep = Inr tokens" and "decodeWords tokens wordLen = Inr buf"
  shows "(length buf < 5 \<longrightarrow> decode s wordLen sep = Inl (Error TooShort)) \<and>
         (5 \<le> length buf \<and> drop (length buf - 4) buf \<noteq> crc32Bytes (take (length buf - 4) buf)
            \<longrightarrow> decode s wordLen sep = Inl (Error CrcMismatch)) \<and>
         (5 \<le> length buf \<and> drop (length buf - 4) buf = crc32Bytes (take (length buf - 4) buf)
            \<longrightarrow> decode s wordLen sep = Inr (take (length buf - 4) buf)) \<and>
         (\<forall>body. decode s wordLen sep = Inr body \<longrightarrow> body \<noteq> [] \<and> body @ crc32Bytes body = buf)"
proof -
  have "body \<noteq> [] \<and> body @ crc32Bytes body = buf" if "decode s wordLen sep = Inr body" for body
  proof -
    from that assms have len: "5 \<le> length buf"
      and crc: "drop (length buf - 4) buf = crc32Bytes (take (length buf - 4) buf)"
      and body: "body = take (length buf - 4) buf"
      by (auto simp: decode_of_buf split: if_splits)
    have "take (length buf - 4) buf @ drop (length buf - 4) buf = buf"
      by (rule append_take_drop_id)
    with crc body len show ?thesis by auto
  qed
  with assms show ?thesis
    by (simp add: decode_of_buf)
qed

lemma sample_words:
  "words ! 0 = ''able''" "words ! 2 = ''also''" "words ! 141 = ''lung''"
  "words ! 210 = ''tied''" "words ! 239 = ''webs''"
  unfolding words_eq by simp_all

lemma sample_minimal:
  "decodeWord ''ae'' 2 = Inr 0" "decodeWord ''td'' 2 = Inr 210" "decodeWord ''ao'' 2 = Inr 2"
  "decodeWord ''ws'' 2 = Inr 239" "decodeWord ''lg'' 2 = Inr 141"
  using decodeWord_minimal [of 0] decodeWord_minimal [of 210] decodeWord_minimal [of 2]
    decodeWord_minimal [of 239] decodeWord_minimal [of 141]
  by (simp_all add: sample_words)

lemma sample_standard:
  "decodeWord ''able'' 4 = Inr 0" "decodeWord ''tied'' 4 = Inr 210"
  "decodeWord ''also'' 4 = Inr 2" "decodeWord ''webs'' 4 = Inr 239"
  "decodeWord ''lung'' 4 = Inr 141"
  using decodeWord_standard [of 0] decodeWord_standard [of 210] decodeWord_standard [of 2]
    decodeWord_standard [of 239] decodeWord_standard [of 141]
  by (simp_all add: sample_words)

theorem decode_checksum_rules_witness:
  "tokenize ''aetdaowslg'' 2 [] = Inr [''ae'', ''td'', ''ao'', ''ws'', ''lg''] \<and>
   decodeWords [''ae'', ''td'', ''ao'', ''ws'', ''lg''] 2 = Inr [0, 210, 2, 239, 141] \<and>
   decode ''aetdaowslg'' 2 [] = Inr [0]"
proof -
  have t: "tokenize ''aetdaowslg'' 2 [] = Inr [''ae'', ''td'', ''ao'', ''ws'', ''lg'']"
    by (simp add: tokenize_def)
  have d: "decodeWords [''ae'', ''td'', ''ao'', ''ws'', ''lg''] 2 = Inr [0, 210, 2, 239, 141]"
    by (simp add: sample_minimal)
  from decode_checksum_rules [OF t d] t d show ?thesis
    by (simp add: crc32Bytes_zero)
qed

section \<open>Minimal input of odd length\<close>

lemma chunks2_odd: "odd (length s) \<Longrightarrow> chunks2 s = Inl (Panic SliceBounds)"
  by (induction s rule: chunks2.induct) auto

text \<open>
  C5. A minimal input of odd length does not make \<^const>\<open>decode\<close> return an error: the slice
  expression that cuts the last token reads beyond the end of the string and panics,
  before any word is looked at.
\<close>

theorem decode_minimal_odd_panics:
  "odd (length s) \<Longrightarrow> decode s 2 sep = Inl (Panic SliceBounds)"
  by (simp add: decode_def tokenize_def chunks2_odd)

theorem decode_minimal_odd_panics_witness:
  "odd (length ''aetdaowsl'') \<and> decode ''aetdaowsl'' 2 [] = Inl (Panic SliceBounds)"
  using decode_minimal_odd_panics [of "''aetdaowsl''" "[]"] by simp

section \<open>Splitting and joining on one character\<close>

declare genSplit.simps [simp del] explode.simps [simp del]

lemma Index_absent: "c \<notin> set t \<Longrightarrow> strings_Index t [c] = None"
  by (induction t) auto

lemma Index_first: "c \<notin> set t \<Longrightarrow> strings_Index (t @ c # rest) [c] = Some (length t)"
  by (induction t) auto

lemma Index_None_D: "strings_Index s [c] = None \<Longrightarrow> c \<notin> set s"
  by (induction s) (auto split: if_splits)

lemma Index_Some_D:
  "strings_Index s [c] = Some m \<Longrightarrow> m < length s \<and> s ! m = c \<and> c \<notin> set (take m s)"
proof (induction s arbitrary: m)
  case Nil
  then show ?case by simp
next
  case (Cons a s)
  show ?case
  proof (cases "a = c")
    case True
    with Cons.prems show ?thesis by simp
  next
    case False
    with Cons.prems obtain m' where m': "strings_Index s [c] = Some m'" "m = Suc m'"
      by auto
    with Cons.IH [of m'] False show ?thesis by simp
  qed
qed

lemma genSplit_absent: "c \<notin> set t \<Longrightarrow> genSplit t [c] = [t]"
  by (subst genSplit.simps) (simp add: Index_absent)

lemma genSplit_first: "c \<notin> set t \<Longrightarrow> genSplit (t @ c # rest) [c] = t # genSplit rest [c]"
  by (subst genSplit.simps) (simp add: Index_first)

lemma Split_Join:
  "ts \<noteq> [] \<Longrightarrow> \<forall>t \<in> set ts. c \<notin> set t \<Longrightarrow> strings_Split (strings_Join ts [c]) [c] = ts"
proof (induction ts "[c]" rule: strings_Join.induct)
  case 1
  then show ?case by simp
next
  case (2 e)
  then show ?case by (simp add: strings_Split_def genSplit_absent)
next
  case (3 e v va)
  then show ?case by (simp add: strings_Split_def genSplit_first)
qed

lemma genSplit_not_Nil: "genSplit s [c] \<noteq> []"
  by (subst genSplit.simps) (simp split: option.splits)

lemma Join_Cons: "es \<noteq> [] \<Longrightarrow> strings_Join (e # es) sep = e @ sep @ strings_Join es sep"
  by (cases es) auto

lemma Join_genSplit:
  "strings_Join (genSplit s [c]) [c] = s \<and> (\<forall>t \<in> set (genSplit s [c]). c \<notin> set t)"
proof (induction s "[c]" rule: genSplit.induct)
  case (1 s)
  show ?case
  proof (cases "strings_Index s [c]")
    case None
    then have "genSplit s [c] = [s]"
      by (subst genSplit.simps) simp
    with None show ?thesis by (simp add: Index_None_D)
  next
    case (Some m)
    then have split: "genSplit s [c] = take m s # genSplit (drop (m + 1) s) [c]"
      by (subst genSplit.simps) simp
    from Some have m: "m < length s" "s ! m = c" "c \<notin> set (take m s)"
      using Index_Some_D by blast+
    have IH: "strings_Join (genSplit (drop (m + 1) s) [c]) [c] = drop (m + 1) s
        \<and> (\<forall>t \<in> set (genSplit (drop (m + 1) s) [c]). c \<notin> set t)"
      using "1.hyps" [OF Some] by simp
    have "s = take m s @ s ! m # drop (Suc m) s"
      using m(1) by (simp add: id_take_nth_drop [symmetric])
    then have s: "s = take m s @ [c] @ drop (m + 1) s"
      using m(2) by simp
    have "strings_Join (genSplit s [c]) [c] = take m s @ [c] @ drop (m + 1) s"
      using IH by (simp add: split Join_Cons genSplit_not_Nil)
    with s IH m(3) show ?thesis by (simp add: split)
  qed
qed

section \<open>Round trip\<close>

lemma words_no_space: "list_all (\<lambda>w. CHR '' '' \<notin> set w) words"
  unfolding words_eq by simp

lemma word_no_space: "CHR '' '' \<notin> set (words ! unat (b :: byte))"
  using words_no_space length_words unat_byte_less [of b] by (simp add: list_all_length)

lemma chunks2_writeMinimal:
  "chunks2 (writeMinimal bs) = Inr (map (\<lambda>b. [words ! unat b ! 0, words ! unat b ! 3]) bs)"
  by (induction bs) auto

lemma decodeWords_minimal:
  "decodeWords (map (\<lambda>b. [words ! unat b ! 0, words ! unat b ! 3]) bs) 2 = Inr bs"
  by (induction bs) (auto simp: decodeWord_minimal)

lemma decodeWords_standard: "decodeWords (map (\<lambda>b. words ! unat b) bs) 4 = Inr bs"
  by (induction bs) (auto simp: decodeWord_standard)

lemma tokenize_encodeMinimal:
  "tokenize (encodeMinimal B) 2 sep =
     Inr (map (\<lambda>b. [words ! unat b ! 0, words ! unat b ! 3]) (appendCRC B))"
  by (simp add: tokenize_def encodeMinimal_def chunks2_writeMinimal)

lemma tokenize_encodeStandard:
  "tokenize (encodeStandard B) 4 '' '' = Inr (map (\<lambda>b. words ! unat b) (appendCRC B))"
proof -
  let ?ts = "map (\<lambda>b. words ! unat b) (appendCRC B)"
  have "?ts \<noteq> []"
    using length_appendCRC [of B] by auto
  moreover have "\<forall>t \<in> set ?ts. CHR '' '' \<notin> set t"
    by (auto simp: word_no_space)
  ultimately have "strings_Split (strings_Join ?ts '' '') '' '' = ?ts"
    by (rule Split_Join)
  then show ?thesis
    by (simp add: tokenize_def encodeStandard_def)
qed

lemma decode_appendCRC:
  assumes "tokenize s wordLen sep = Inr tokens" and "decodeWords tokens wordLen = Inr (appendCRC B)"
  shows "decode s wordLen sep = (if B = [] then Inl (Error TooShort) else Inr B)"
proof -
  have "length (appendCRC B) < 5 \<longleftrightarrow> B = []"
    by (auto simp: length_appendCRC)
  moreover have "take (length (appendCRC B) - 4) (appendCRC B) = B"
    "drop (length (appendCRC B) - 4) (appendCRC B) = crc32Bytes B"
    by (simp_all add: appendCRC_def length_crc32Bytes)
  ultimately show ?thesis
    using decode_of_buf [OF assms] by simp
qed

lemma decode_encodeMinimal:
  "decode (encodeMinimal B) 2 sep = (if B = [] then Inl (Error TooShort) else Inr B)"
  by (rule decode_appendCRC [OF tokenize_encodeMinimal decodeWords_minimal])

lemma decode_encodeStandard:
  "decode (encodeStandard B) 4 '' '' = (if B = [] then Inl (Error TooShort) else Inr B)"
  by (rule decode_appendCRC [OF tokenize_encodeStandard decodeWords_standard])

text \<open>
  C1, on the empty byte sequence: its encoding is the four words of the checksum
  \<open>00 00 00 00\<close>, which \<^const>\<open>decode\<close> rejects as too short, so the round trip does not
  return it.
\<close>

theorem roundtrip_empty_counterexample:
  "encodeMinimal [] = ''aeaeaeae'' \<and> decode (encodeMinimal []) 2 [] = Inl (Error TooShort) \<and>
   encodeStandard [] = ''able able able able'' \<and>
   decode (encodeStandard []) 4 '' '' = Inl (Error TooShort)"
  by (simp add: decode_encodeMinimal decode_encodeStandard)
    (simp add: encodeMinimal_def encodeStandard_def appendCRC_def crc32Bytes_empty sample_words)

text \<open>
  C1, amended: for every byte sequence \<open>B\<close> that is not empty, decoding the minimal
  encoding of \<open>B\<close> as minimal returns \<open>B\<close>, and decoding the standard encoding of \<open>B\<close>,
  split at the spaces, as standard returns \<open>B\<close>.
\<close>

theorem roundtrip_nonempty:
  "B \<noteq> [] \<Longrightarrow>
   decode (encodeMinimal B) 2 sep = Inr B \<and> decode (encodeStandard B) 4 '' '' = Inr B"
  by (simp add: decode_encodeMinimal decode_encodeStandard)

theorem roundtrip_nonempty_witness:
  "[0 :: byte] \<noteq> [] \<and>
   decode (encodeMinimal [0]) 2 [] = Inr [0] \<and> decode (encodeStandard [0]) 4 '' '' = Inr [0]"
  using roundtrip_nonempty [of "[0]" "[]"] by simp

lemma encode_zero:
  "encodeMinimal [0] = ''aetdaowslg''" "encodeStandard [0] = ''able tied also webs lung''"
  by (simp_all add: encodeMinimal_def encodeStandard_def appendCRC_def crc32Bytes_zero
      sample_words)

section \<open>A corrupted standard word\<close>

lemma decodeWord_4_length: "decodeWord w 4 = Inr b \<Longrightarrow> length w = 4"
  by (simp add: decodeWord_def split: if_splits)

lemma decodeWords_nth:
  "decodeWords ts wordLen = Inr buf \<Longrightarrow> k < length ts \<Longrightarrow> \<exists>b. decodeWord (ts ! k) wordLen = Inr b"
proof (induction ts arbitrary: k buf)
  case Nil
  then show ?case by simp
next
  case (Cons t ts)
  then show ?case
    by (cases k) (auto split: sum.splits)
qed

lemma decodeWords_update_fail:
  "decodeWords ts wordLen = Inr buf \<Longrightarrow> k < length ts \<Longrightarrow> decodeWord w wordLen = Inl e
     \<Longrightarrow> decodeWords (ts[k := w]) wordLen = Inl e"
proof (induction ts arbitrary: k buf)
  case Nil
  then show ?case by simp
next
  case (Cons t ts)
  then show ?case
    by (cases k) (auto split: sum.splits)
qed

lemma decodeWord_corrupt:
  assumes "decodeWord w 4 = Inr b" and "r = 1 \<or> r = 2" and "c \<noteq> w ! r"
  shows "decodeWord (w[r := c]) 4 = Inl (Error InvalidMiddleChars)"
proof -
  have len: "length w = 4"
    using assms(1) by (rule decodeWord_4_length)
  from assms(2) have ends: "w[r := c] ! 0 = w ! 0" "w[r := c] ! 3 = w ! 3"
    by auto
  from assms(2,3) len have mid: "w[r := c] ! 1 \<noteq> w ! 1 \<or> w[r := c] ! 2 \<noteq> w ! 2"
    by auto
  from assms(1) mid show ?thesis
    unfolding decodeWord_def Let_def ends
    by (simp add: len split: if_splits)
qed

lemma Join_update:
  "\<forall>t \<in> set ts. length t = 4 \<Longrightarrow> k < length ts \<Longrightarrow> r < 4 \<Longrightarrow>
   (strings_Join ts [sp])[5 * k + r := c] = strings_Join (ts[k := (ts ! k)[r := c]]) [sp]"
proof (induction ts arbitrary: k)
  case Nil
  then show ?case by simp
next
  case (Cons e es)
  have e: "length e = 4"
    using Cons.prems by simp
  show ?case
  proof (cases k)
    case 0
    show ?thesis
    proof (cases "es = []")
      case True
      with 0 show ?thesis by simp
    next
      case False
      with 0 e Cons.prems(3) show ?thesis
        by (simp add: Join_Cons list_update_append)
    qed
  next
    case (Suc k')
    with Cons.prems have k': "k' < length es" and es: "es \<noteq> []"
      by auto
    let ?es' = "es[k' := (es ! k')[r := c]]"
    have IH: "(strings_Join es [sp])[5 * k' + r := c] = strings_Join ?es' [sp]"
      using Cons.IH [OF _ k' Cons.prems(3)] Cons.prems(1) by simp
    have es': "?es' \<noteq> []"
      using es by simp
    have "(strings_Join (e # es) [sp])[5 * k + r := c]
        = (e @ [sp] @ strings_Join es [sp])[5 * k + r := c]"
      by (simp only: Join_Cons [OF es])
    also have "\<dots> = e @ [sp] @ (strings_Join es [sp])[5 * k' + r := c]"
      using e Suc by (simp add: list_update_append nat.split)
    also have "\<dots> = strings_Join (e # ?es') [sp]"
      by (simp only: IH Join_Cons [OF es'])
    finally show ?thesis
      using Suc by simp
  qed
qed

lemma decode_standard_tokens:
  assumes "decode s 4 '' '' = Inr body"
  obtains ts buf where "ts = genSplit s '' ''" "decodeWords ts 4 = Inr buf"
proof -
  from assms obtain buf where "decodeWords (genSplit s '' '') 4 = Inr buf"
    by (auto simp: decode_def tokenize_def strings_Split_def split: sum.splits)
  then show ?thesis using that by simp
qed

text \<open>
  C7, with a space put in: the word falls into two tokens, and the first of them is
  rejected for its length before the middle of any word is compared.
\<close>

theorem corrupt_by_space_counterexample:
  "decode ''able tied also webs lung'' 4 '' '' = Inr [0] \<and>
   decode (''able tied also webs lung''[1 := CHR '' '']) 4 '' ''
     = Inl (Error InvalidBytewordsLength)"
proof
  show "decode ''able tied also webs lung'' 4 '' '' = Inr [0]"
    using decode_encodeStandard [of "[0]"] by (simp add: encode_zero)
next
  have "tokenize (''able tied also webs lung''[1 := CHR '' '']) 4 '' ''
      = Inr [''a'', ''le'', ''tied'', ''also'', ''webs'', ''lung'']"
    by (simp add: tokenize_def strings_Split_def genSplit.simps)
  then show "decode (''able tied also webs lung''[1 := CHR '' '']) 4 '' ''
      = Inl (Error InvalidBytewordsLength)"
    by (simp add: decode_def decodeWord_def)
qed

text \<open>
  C7, amended: in a string that the standard variant decodes, replacing the character at
  position 1 or 2 of one word by a different character that is not the space makes
  \<^const>\<open>decode\<close> fail with the error for the middle characters.
\<close>

theorem corrupt_middle_detected:
  assumes "decode s 4 '' '' = Inr body" and "p < length s" and "p mod 5 = 1 \<or> p mod 5 = 2"
    and "c \<noteq> s ! p" and "c \<noteq> CHR '' ''"
  shows "decode (s[p := c]) 4 '' '' = Inl (Error InvalidMiddleChars)"
proof -
  from assms(1) obtain ts buf where ts: "ts = genSplit s '' ''" and buf: "decodeWords ts 4 = Inr buf"
    by (rule decode_standard_tokens)
  have ne: "ts \<noteq> []"
    unfolding ts by (rule genSplit_not_Nil)
  have s: "strings_Join ts '' '' = s" and nosp: "\<forall>t \<in> set ts. CHR '' '' \<notin> set t"
    using Join_genSplit [of s "CHR '' ''"] by (simp_all add: ts)
  have len4: "\<forall>t \<in> set ts. length t = 4"
  proof
    fix t
    assume "t \<in> set ts"
    then obtain k where "k < length ts" "t = ts ! k"
      by (auto simp: in_set_conv_nth)
    with decodeWords_nth [OF buf] decodeWord_4_length show "length t = 4"
      by blast
  qed
  define k r where "k = p div 5" and "r = p mod 5"
  have p: "p = 5 * k + r" and r: "r = 1 \<or> r = 2"
    using assms(3) by (simp_all add: k_def r_def)
  have "length s + 1 = 5 * length ts"
    using length_Join_words [OF ne len4, of "CHR '' ''"] s by simp
  with assms(2) p r have k: "k < length ts"
    by arith
  let ?w = "(ts ! k)[r := c]"
  have upd: "s[p := c] = strings_Join (ts[k := ?w]) '' ''"
    using Join_update [OF len4 k, of r "CHR '' ''" c] r s p by auto
  have "c \<noteq> ts ! k ! r"
  proof
    assume "c = ts ! k ! r"
    then have "s[p := c] = s"
      using upd s by simp
    then have "s[p := c] ! p = s ! p"
      by simp
    with assms(2,4) show False by simp
  qed
  moreover obtain b where "decodeWord (ts ! k) 4 = Inr b"
    using decodeWords_nth [OF buf k] by blast
  ultimately have bad: "decodeWord ?w 4 = Inl (Error InvalidMiddleChars)"
    using decodeWord_corrupt r by blast
  have "\<forall>t \<in> set (ts[k := ?w]). CHR '' '' \<notin> set t"
  proof
    fix t
    assume "t \<in> set (ts[k := ?w])"
    then have "t = ?w \<or> t \<in> set ts"
      using set_update_subset_insert [of ts k ?w] by auto
    moreover have "CHR '' '' \<notin> set ?w"
      using nosp k assms(5) set_update_subset_insert [of "ts ! k" r c] by auto
    ultimately show "CHR '' '' \<notin> set t"
      using nosp by auto
  qed
  moreover have "ts[k := ?w] \<noteq> []"
    using ne by simp
  ultimately have "strings_Split (s[p := c]) '' '' = ts[k := ?w]"
    using Split_Join [of "ts[k := ?w]" "CHR '' ''"] upd by simp
  moreover have "decodeWords (ts[k := ?w]) 4 = Inl (Error InvalidMiddleChars)"
    using decodeWords_update_fail [OF buf k bad] .
  ultimately show ?thesis
    by (simp add: decode_def tokenize_def)
qed

theorem corrupt_middle_detected_witness:
  "decode ''able tied also webs lung'' 4 '' '' = Inr [0] \<and>
   decode ''axle tied also webs lung'' 4 '' '' = Inl (Error InvalidMiddleChars)"
proof -
  have ok: "decode ''able tied also webs lung'' 4 '' '' = Inr [0]"
    using decode_encodeStandard [of "[0]"] by (simp add: encode_zero)
  from corrupt_middle_detected [OF ok, of 1 "CHR ''x''"] ok show ?thesis
    by simp
qed

section \<open>Letter case\<close>

lemma lookup_able: "lookupTable ! 104 = 0"
  using lookup_word [of 0] by (simp add: sample_words offset_of_def)

text \<open>
  C8. \<^const>\<open>decodeWord\<close> lowers the first and the last character of a word before the
  lookup, so that \<open>AE\<close> and \<open>AblE\<close> decode as \<open>ae\<close> and \<open>able\<close> do, but it compares the
  two middle characters as they are: \<open>ABLE\<close> is rejected, and with it the standard
  encoding of the byte \<open>00\<close> written in capitals, which in small letters decodes.
\<close>

theorem uppercase_standard_rejected:
  "decodeWord ''AE'' 2 = Inr 0 \<and> decodeWord ''AblE'' 4 = Inr 0 \<and>
   decodeWord ''ABLE'' 4 = Inl (Error InvalidMiddleChars) \<and>
   decode ''able tied also webs lung'' 4 '' '' = Inr [0] \<and>
   decode ''ABLE TIED ALSO WEBS LUNG'' 4 '' '' = Inl (Error InvalidMiddleChars)"
proof (intro conjI)
  show "decodeWord ''AE'' 2 = Inr 0"
    by (simp add: decodeWord_def unicode_ToLower_def lookup_able)
  show "decodeWord ''AblE'' 4 = Inr 0"
    by (simp add: decodeWord_def unicode_ToLower_def lookup_able sample_words)
  show bad: "decodeWord ''ABLE'' 4 = Inl (Error InvalidMiddleChars)"
    by (simp add: decodeWord_def unicode_ToLower_def lookup_able sample_words)
  show "decode ''able tied also webs lung'' 4 '' '' = Inr [0]"
    using decode_encodeStandard [of "[0]"] by (simp add: encode_zero)
  have "tokenize ''ABLE TIED ALSO WEBS LUNG'' 4 '' ''
      = Inr [''ABLE'', ''TIED'', ''ALSO'', ''WEBS'', ''LUNG'']"
    by (simp add: tokenize_def strings_Split_def genSplit.simps)
  then show "decode ''ABLE TIED ALSO WEBS LUNG'' 4 '' '' = Inl (Error InvalidMiddleChars)"
    by (simp add: decode_def bad)
qed

theorem uppercase_standard_rejected_witness:
  "decode ''ABLE TIED ALSO WEBS LUNG'' 4 '' '' \<noteq> decode ''able tied also webs lung'' 4 '' '' \<and>
   decodeWord ''ABLE'' 4 \<noteq> decodeWord ''able'' 4 \<and> decodeWord ''AblE'' 4 = decodeWord ''able'' 4"
  using uppercase_standard_rejected by (simp add: sample_standard)

section \<open>The record mapping\<close>

lemma andThen_Inl:
  "andThen r k = Inl f \<Longrightarrow> (\<And>f. r = Inl f \<Longrightarrow> P f) \<Longrightarrow> (\<And>v f. k v = Inl f \<Longrightarrow> P f) \<Longrightarrow> P f"
  by (cases r) (auto simp: andThen_def)

lemma andThen_Inr:
  "andThen r k = Inr y \<Longrightarrow> \<exists>v. r = Inr v \<and> k v = Inr y"
  by (cases r) (auto simp: andThen_def)

lemma index_panics: "index a i = Inl f \<Longrightarrow> (\<exists>k. f = Panic k)"
  by (auto simp: index_def split: if_splits)

lemma asFloat64_panics: "asFloat64 v = Inl f \<Longrightarrow> (\<exists>k. f = Panic k)"
  by (auto simp: asFloat64_def split: json.splits)

lemma asString_panics: "asString v = Inl f \<Longrightarrow> (\<exists>k. f = Panic k)"
  by (auto simp: asString_def split: json.splits)

lemma asBool_panics: "asBool v = Inl f \<Longrightarrow> (\<exists>k. f = Panic k)"
  by (auto simp: asBool_def split: json.splits)

lemma asSlice_panics: "asSlice v = Inl f \<Longrightarrow> (\<exists>k. f = Panic k)"
  by (auto simp: asSlice_def split: json.splits)

lemmas prim_panics = index_panics asFloat64_panics asString_panics asBool_panics asSlice_panics

lemma walletOf_panics: "walletOf w = Inl f \<Longrightarrow> (\<exists>k. f = Panic k)"
  unfolding walletOf_def
  by (elim andThen_Inl) (auto dest: prim_panics)

lemma accountOf_panics: "accountOf toInt a = Inl f \<Longrightarrow> (\<exists>k. f = Panic k)"
  unfolding accountOf_def
  by (elim andThen_Inl) (auto dest: prim_panics walletOf_panics)

lemma accountsOf_panics: "accountsOf toInt accList = Inl f \<Longrightarrow> (\<exists>k. f = Panic k)"
proof (induction accList arbitrary: f)
  case Nil
  then show ?case by simp
next
  case (Cons a accList)
  from Cons.prems show ?case
    unfolding accountsOf.simps
    by (elim andThen_Inl) (auto dest: accountOf_panics Cons.IH)
qed

lemma rootOf_panics: "rootOf toInt raw = Inl f \<Longrightarrow> (\<exists>k. f = Panic k)"
  unfolding rootOf_def
  by (elim andThen_Inl) (auto dest: prim_panics accountsOf_panics)


lemma unmarshalRaw_panics: "unmarshalRaw C j = Inl f \<Longrightarrow> (\<exists>k. f = Panic k)"
  by (auto simp: unmarshalRaw_def split: option.splits json.splits)

lemma accountOf_short: "length arr < 5 \<Longrightarrow> accountOf toInt (JArray arr) = Inl (Panic IndexRange)"
  by (simp add: accountOf_def asSlice_def index_def andThen_def)

lemma accountsOf_member_fails:
  "a \<in> set accList \<Longrightarrow> accountOf toInt a = Inl f \<Longrightarrow> \<exists>f'. accountsOf toInt accList = Inl f'"
proof (induction accList)
  case Nil
  then show ?case by simp
next
  case (Cons b accList)
  show ?case
  proof (cases "accountOf toInt b")
    case (Inl g)
    then show ?thesis by (simp add: andThen_def)
  next
    case (Inr acc)
    with Cons.prems have "a \<in> set accList"
      by auto
    with Cons.IH Cons.prems(2) obtain f' where "accountsOf toInt accList = Inl f'"
      by blast
    with Inr show ?thesis by (simp add: andThen_def)
  qed
qed

lemma accountsOf_all:
  "accountsOf toInt accList = Inr accounts \<Longrightarrow>
   list_all2 (\<lambda>a account. accountOf toInt a = Inr account) accList accounts"
proof (induction accList arbitrary: accounts)
  case Nil
  then show ?case by simp
next
  case (Cons a accList)
  from Cons.prems obtain account rest where "accountOf toInt a = Inr account"
    "accountsOf toInt accList = Inr rest" "accounts = account # rest"
    by (auto simp: andThen_def split: sum.splits)
  with Cons.IH show ?case by simp
qed

text \<open>
  C6, on a tree with one account entry of 4 elements: the record mapping does not return
  an error value, the index expression \<^verbatim>\<open>arr[4]\<close> panics.
\<close>

theorem short_account_counterexample:
  "rootOf id [JNumber (1 :: int),
      JArray [JArray [JNumber 1, JNumber 0, JString ''abc'', JNumber 0]]]
     = Inl (Panic IndexRange)"
  by (simp add: rootOf_def index_def asFloat64_def asSlice_def andThen_def accountOf_short)

text \<open>
  C6, amended: for every value tree whose list of accounts (at position 1) has an entry
  with only 4 positional elements, mapping that entry panics with an index out of range
  and the record mapping ends in a run-time panic, not in an error returned; and whenever
  the record mapping returns a \<^typ>\<open>Root\<close>, each entry of the list has been mapped to the
  \<^typ>\<open>Account\<close> at its position, so that neither a partial \<^typ>\<open>Account\<close> nor a partial
  \<^typ>\<open>Root\<close> is produced.
\<close>

theorem short_account_panics:
  "(1 < length raw \<and> raw ! 1 = JArray accList \<and> JArray arr \<in> set accList \<and> length arr = 4
      \<longrightarrow> accountOf toInt (JArray arr) = Inl (Panic IndexRange) \<and>
          (\<exists>k. rootOf toInt raw = Inl (Panic k))) \<and>
   (rootOf toInt raw = Inr root
      \<longrightarrow> (\<exists>entries. raw ! 1 = JArray entries \<and>
            list_all2 (\<lambda>a account. accountOf toInt a = Inr account) entries (Accounts root)))"
proof (intro conjI impI)
  assume a: "1 < length raw \<and> raw ! 1 = JArray accList \<and> JArray arr \<in> set accList \<and> length arr = 4"
  then show short: "accountOf toInt (JArray arr) = Inl (Panic IndexRange)"
    by (simp add: accountOf_short)
  from a short obtain f where f: "accountsOf toInt accList = Inl f"
    using accountsOf_member_fails by blast
  have "\<exists>f'. rootOf toInt raw = Inl f'"
  proof (cases "andThen (index raw 0) asFloat64")
    case (Inl g)
    then show ?thesis by (simp add: rootOf_def andThen_def)
  next
    case (Inr version)
    with a f show ?thesis
      by (simp add: rootOf_def andThen_def index_def asSlice_def)
  qed
  then show "\<exists>k. rootOf toInt raw = Inl (Panic k)"
    using rootOf_panics by blast
next
  assume "rootOf toInt raw = Inr root"
  then obtain l accList accounts where "index raw 1 = Inr l" "asSlice l = Inr accList"
    "accountsOf toInt accList = Inr accounts" "Accounts root = accounts"
    unfolding rootOf_def by (fastforce dest!: andThen_Inr)
  then show "\<exists>entries. raw ! 1 = JArray entries \<and>
      list_all2 (\<lambda>a account. accountOf toInt a = Inr account) entries (Accounts root)"
    using accountsOf_all [of toInt accList accounts]
    by (auto simp: index_def asSlice_def split: if_splits json.splits)
qed

theorem short_account_panics_witness:
  "accountOf id (JArray [JNumber (1 :: int), JNumber 0, JString ''abc'', JNumber 0])
     = Inl (Panic IndexRange) \<and>
   (\<exists>k. rootOf id [JNumber (1 :: int),
      JArray [JArray [JNumber 1, JNumber 0, JString ''abc'', JNumber 0]]] = Inl (Panic k)) \<and>
   rootOf id [JNumber (1 :: int), JArray []] = Inr \<lparr>Version = 1, Accounts = []\<rparr>"
proof -
  have ok: "rootOf id [JNumber (1 :: int), JArray []] = Inr \<lparr>Version = 1, Accounts = []\<rparr>"
    by (simp add: rootOf_def index_def asFloat64_def asSlice_def andThen_def)
  from short_account_panics [of "[JNumber (1 :: int),
      JArray [JArray [JNumber 1, JNumber 0, JString ''abc'', JNumber 0]]]"
      "[JArray [JNumber 1, JNumber 0, JString ''abc'', JNumber 0]]"
      "[JNumber 1, JNumber 0, JString ''abc'', JNumber 0]" id]
    short_account_panics [of "[JNumber (1 :: int), JArray []]" "[]" "[]" id
      "\<lparr>Version = 1, Accounts = []\<rparr>"] ok
  show ?thesis by simp
qed

section \<open>The tables are left as they are\<close>

lemma decodeWord_st_state: "snd (decodeWord_st word wordLen T) = T"
  by (simp add: decodeWord_st_def Let_def)

lemma decodeWords_st_state: "snd (decodeWords_st ts wordLen T) = T"
proof (induction ts)
  case Nil
  then show ?case by simp
next
  case (Cons t ts)
  obtain r where r: "decodeWord_st t wordLen T = (r, T)"
    using decodeWord_st_state [of t wordLen T] by (cases "decodeWord_st t wordLen T") auto
  obtain rs where rs: "decodeWords_st ts wordLen T = (rs, T)"
    using Cons.IH by (cases "decodeWords_st ts wordLen T") auto
  show ?case
    by (simp add: r rs split: sum.splits)
qed

lemma decode_st_state: "snd (decode_st s wordLen sep T) = T"
proof (cases "tokenize s wordLen sep")
  case (Inl f)
  then show ?thesis by (simp add: decode_st_def)
next
  case (Inr tokens)
  obtain rs where "decodeWords_st tokens wordLen T = (rs, T)"
    using decodeWords_st_state [of tokens wordLen T]
    by (cases "decodeWords_st tokens wordLen T") auto
  with Inr show ?thesis
    by (simp add: decode_st_def Let_def split: sum.splits)
qed

lemma Decode_st_state: "snd (Decode_st C input T) = T"
proof -
  obtain r where "decode_st input 2 [] T = (r, T)"
    using decode_st_state [of input 2 "[]" T] by (cases "decode_st input 2 [] T") auto
  then show ?thesis
    by (simp add: Decode_st_def split: sum.splits failure.splits option.splits)
qed

section \<open>On the tables of init, the functions over the state are the functions above\<close>

lemma fill_lookup_range:
  "\<forall>v \<in> set t. - 1 \<le> v \<and> v < 256 \<Longrightarrow> i + length ws \<le> 256 \<Longrightarrow>
   \<forall>v \<in> set (fill_lookup i ws t). - 1 \<le> v \<and> v < 256"
proof (induction ws arbitrary: i t)
  case Nil
  then show ?case by simp
next
  case (Cons w ws)
  have "\<forall>v \<in> set (t[offset_of w := int i]). - 1 \<le> v \<and> v < 256"
  proof
    fix v
    assume "v \<in> set (t[offset_of w := int i])"
    then have "v = int i \<or> v \<in> set t"
      using set_update_subset_insert [of t "offset_of w" "int i"] by auto
    with Cons.prems show "- 1 \<le> v \<and> v < 256"
      by auto
  qed
  moreover have "Suc i + length ws \<le> 256"
    using Cons.prems by simp
  ultimately show ?case
    using Cons.IH [of "t[offset_of w := int i]" "Suc i"] by simp
qed

lemma lookup_range: "k < 676 \<Longrightarrow> - 1 \<le> lookupTable ! k \<and> lookupTable ! k < 256"
proof -
  assume "k < 676"
  then have "lookupTable ! k \<in> set lookupTable"
    by (simp add: length_lookupTable)
  moreover have "\<forall>v \<in> set lookupTable. - 1 \<le> v \<and> v < 256"
    unfolding lookupTable_def by (rule fill_lookup_range) (simp_all add: length_words)
  ultimately show ?thesis by blast
qed

lemma lookup_guards:
  assumes "0 \<le> x" "x < 26" "0 \<le> y" "y < 26"
  shows "nat (y * 26 + x) < 676"
    and "lookupTable ! nat (y * 26 + x) \<noteq> - 1 \<Longrightarrow> 0 \<le> lookupTable ! nat (y * 26 + x)"
    and "lookupTable ! nat (y * 26 + x) < 256"
    and "lookupTable ! nat (y * 26 + x) \<noteq> - 1 \<Longrightarrow>
         length (words ! nat (lookupTable ! nat (y * 26 + x))) = 4"
proof -
  from assms show k: "nat (y * 26 + x) < 676"
    by auto
  from lookup_range [OF k] show "lookupTable ! nat (y * 26 + x) < 256"
    by simp
  assume "lookupTable ! nat (y * 26 + x) \<noteq> - 1"
  with lookup_range [OF k] show nonneg: "0 \<le> lookupTable ! nat (y * 26 + x)"
    by auto
  with lookup_range [OF k] have "nat (lookupTable ! nat (y * 26 + x)) < 256"
    by auto
  then show "length (words ! nat (lookupTable ! nat (y * 26 + x))) = 4"
    using word_nth_ends_ok by (simp add: ends_ok_def Let_def)
qed

lemma decodeWord_st_init:
  "decodeWord_st word wordLen init_tables = (decodeWord word wordLen, init_tables)"
proof -
  define x where "x = unicode_ToLower (of_char (word ! 0)) - of_char CHR ''a''"
  define y where "y = (if wordLen = 4 then unicode_ToLower (of_char (word ! 3)) - of_char CHR ''a''
                 else unicode_ToLower (of_char (word ! 1)) - of_char CHR ''a'')"
  show ?thesis
  proof (cases "x < 0 \<or> x \<ge> 26 \<or> y < 0 \<or> y \<ge> 26")
    case True
    then show ?thesis
      unfolding decodeWord_st_def decodeWord_def init_tables_def Let_def
        x_def [symmetric] y_def [symmetric]
      by simp
  next
    case False
    then have r: "0 \<le> x" "x < 26" "0 \<le> y" "y < 26"
      by auto
    note g = lookup_guards [OF r]
    show ?thesis
    proof (cases "lookupTable ! nat (y * 26 + x) = - 1")
      case True
      with False g(1) show ?thesis
        unfolding decodeWord_st_def decodeWord_def init_tables_def Let_def
          x_def [symmetric] y_def [symmetric]
        by (simp add: length_lookupTable)
    next
      case val: False
      from False val g(1) g(2) [OF val] g(3) g(4) [OF val] show ?thesis
        unfolding decodeWord_st_def decodeWord_def init_tables_def Let_def
          x_def [symmetric] y_def [symmetric]
        by (simp add: length_lookupTable length_words)
    qed
  qed
qed

lemma decodeWords_st_init:
  "decodeWords_st ts wordLen init_tables = (decodeWords ts wordLen, init_tables)"
  by (induction ts) (auto simp: decodeWord_st_init split: sum.splits)

lemma decode_st_init:
  "decode_st s wordLen sep init_tables = (decode s wordLen sep, init_tables)"
  by (auto simp: decode_st_def decode_def decodeWords_st_init Let_def split: sum.splits)

lemma Decode_st_init: "Decode_st C input init_tables = (Decode C input, init_tables)"
  by (auto simp: Decode_st_def Decode_def decode_st_init
      split: sum.splits failure.splits option.splits)

section \<open>The pipeline\<close>

lemma decode_empty: "decode [] 2 [] = Inl (Error TooShort)"
  by (simp add: decode_def tokenize_def)

lemma Decode_Inl:
  assumes "Decode C input = Inl f"
  shows "(\<exists>st. f = Fatal st) \<or> (\<exists>k. f = Panic k)"
proof -
  have tail: "\<exists>k. g = Panic k"
    if "andThen (unmarshalRaw C j) (rootOf toInt) = Inl g" for j toInt g
    using that
    by (auto simp: andThen_def split: sum.splits dest: unmarshalRaw_panics rootOf_panics)
  from assms show ?thesis
    unfolding Decode_def
    by (auto split: sum.splits failure.splits option.splits dest: tail)
qed

lemma Decode_Inr:
  "Decode C input = Inr root \<Longrightarrow>
   \<exists>decoded outer gr unzipped inner raw.
     decode input 2 [] = Inr decoded \<and> cborUnmarshalBytes C decoded = Some outer \<and>
     gzipNewReader C outer = Some gr \<and> ioReadAll C gr = Some unzipped \<and>
     cborUnmarshalAny C unzipped = Some inner \<and>
     unmarshalRaw C (jsonMarshalIndent C inner) = Inr raw \<and>
     rootOf (floatToInt C) raw = Inr root"
  unfolding Decode_def
  by (auto split: sum.splits failure.splits option.splits dest!: andThen_Inr)

text \<open>
  C2, on the empty input: \<^const>\<open>decode\<close> returns the error "too short" and \<^const>\<open>Decode\<close>
  hands it to \<^verbatim>\<open>log.Fatal\<close>, which ends the process; no error reaches the caller.
\<close>

theorem Decode_fatal_counterexample:
  "Decode \<lparr>cborUnmarshalBytes = Some, gzipNewReader = Some, ioReadAll = Some,
      cborUnmarshalAny = Some, jsonMarshalIndent = id,
      jsonParse = (Map.empty :: byte list \<Rightarrow> int json option), floatToInt = id\<rparr> []
     = Inl (Fatal BytewordsDecode)"
  by (simp add: Decode_def decode_empty)

lemma decodeWord_not_Fatal: "decodeWord word wordLen \<noteq> Inl (Fatal st)"
  by (simp add: decodeWord_def Let_def)

lemma decodeWords_not_Fatal: "decodeWords ts wordLen \<noteq> Inl (Fatal st)"
  by (induction ts) (auto simp: decodeWord_not_Fatal split: sum.splits)

lemma chunks2_not_Fatal: "chunks2 s \<noteq> Inl (Fatal st)"
  by (induction s rule: chunks2.induct) (auto split: sum.splits)

lemma decode_not_Fatal: "decode s wordLen sep \<noteq> Inl (Fatal st)"
  by (auto simp: decode_def tokenize_def Let_def chunks2_not_Fatal decodeWords_not_Fatal
      split: sum.splits if_splits)

text \<open>
  C2, amended: for every input and whatever the packages called return, a failure at any
  stage aborts the whole of \<^const>\<open>Decode\<close>, no \<^typ>\<open>Root\<close> is returned, and the word
  table is not corrupted; but the failure does not reach the caller as an error value. An
  error that \<^const>\<open>decode\<close> returns, and an error of the outer container, of either
  step of the inflation or of the inner container, ends in \<^verbatim>\<open>log.Fatal\<close> (the process
  exits); a panic inside \<^const>\<open>decode\<close>, a failure to read the tree and a failure of the
  record mapping are run-time panics. When every stage succeeds the \<^typ>\<open>Root\<close> of the
  record mapping is returned, and only then. Over the package variables as state,
  \<^const>\<open>Decode_st\<close> returns the tables it was given, whatever its outcome, so that a
  call made after it behaves as if it had not run; on the tables of \<^verbatim>\<open>init\<close> its outcome
  is that of \<^const>\<open>Decode\<close>.
\<close>

theorem Decode_aborts_without_error_value:
  "(Decode C input = Inl f \<longrightarrow> (\<exists>st. f = Fatal st) \<or> (\<exists>k. f = Panic k)) \<and>
   decode input 2 [] \<noteq> Inl (Fatal st) \<and>
   (decode input 2 [] = Inl (Error e) \<longrightarrow> Decode C input = Inl (Fatal BytewordsDecode)) \<and>
   (decode input 2 [] = Inl (Panic k) \<longrightarrow> Decode C input = Inl (Panic k)) \<and>
   (decode input 2 [] = Inr decoded \<longrightarrow>
     (cborUnmarshalBytes C decoded = None \<longrightarrow> Decode C input = Inl (Fatal CborOuter)) \<and>
     (cborUnmarshalBytes C decoded = Some outer \<longrightarrow>
       (gzipNewReader C outer = None \<longrightarrow> Decode C input = Inl (Fatal GzipReader)) \<and>
       (gzipNewReader C outer = Some gr \<longrightarrow>
         (ioReadAll C gr = None \<longrightarrow> Decode C input = Inl (Fatal GzipRead)) \<and>
         (ioReadAll C gr = Some unzipped \<longrightarrow>
           (cborUnmarshalAny C unzipped = None \<longrightarrow> Decode C input = Inl (Fatal CborInner)) \<and>
           (cborUnmarshalAny C unzipped = Some inner \<longrightarrow>
             (unmarshalRaw C (jsonMarshalIndent C inner) = Inl g \<longrightarrow>
                g = Panic PanicErr \<and> Decode C input = Inl g) \<and>
             (unmarshalRaw C (jsonMarshalIndent C inner) = Inr raw \<longrightarrow>
               (rootOf (floatToInt C) raw = Inl g \<longrightarrow>
                  (\<exists>k. g = Panic k) \<and> Decode C input = Inl g) \<and>
               (rootOf (floatToInt C) raw = Inr root \<longrightarrow> Decode C input = Inr root))))))) \<and>
   (Decode C input = Inr root \<longrightarrow>
      (\<exists>decoded outer gr unzipped inner raw.
         decode input 2 [] = Inr decoded \<and> cborUnmarshalBytes C decoded = Some outer \<and>
         gzipNewReader C outer = Some gr \<and> ioReadAll C gr = Some unzipped \<and>
         cborUnmarshalAny C unzipped = Some inner \<and>
         unmarshalRaw C (jsonMarshalIndent C inner) = Inr raw \<and>
         rootOf (floatToInt C) raw = Inr root)) \<and>
   snd (Decode_st C input T) = T \<and>
   fst (Decode_st C' input' (snd (Decode_st C input T))) = fst (Decode_st C' input' T) \<and>
   Decode_st C input init_tables = (Decode C input, init_tables)"
proof (intro conjI)
  show "Decode C input = Inl f \<longrightarrow> (\<exists>st. f = Fatal st) \<or> (\<exists>k. f = Panic k)"
    using Decode_Inl by blast
  show "decode input 2 [] \<noteq> Inl (Fatal st)"
    by (rule decode_not_Fatal)
  show "decode input 2 [] = Inl (Error e) \<longrightarrow> Decode C input = Inl (Fatal BytewordsDecode)"
    by (simp add: Decode_def)
  show "decode input 2 [] = Inl (Panic k) \<longrightarrow> Decode C input = Inl (Panic k)"
    by (simp add: Decode_def)
  have raw_fail: "g = Panic PanicErr" if "unmarshalRaw C j = Inl g" for j
    using that by (auto simp: unmarshalRaw_def split: option.splits json.splits)
  show "decode input 2 [] = Inr decoded \<longrightarrow>
     (cborUnmarshalBytes C decoded = None \<longrightarrow> Decode C input = Inl (Fatal CborOuter)) \<and>
     (cborUnmarshalBytes C decoded = Some outer \<longrightarrow>
       (gzipNewReader C outer = None \<longrightarrow> Decode C input = Inl (Fatal GzipReader)) \<and>
       (gzipNewReader C outer = Some gr \<longrightarrow>
         (ioReadAll C gr = None \<longrightarrow> Decode C input = Inl (Fatal GzipRead)) \<and>
         (ioReadAll C gr = Some unzipped \<longrightarrow>
           (cborUnmarshalAny C unzipped = None \<longrightarrow> Decode C input = Inl (Fatal CborInner)) \<and>
           (cborUnmarshalAny C unzipped = Some inner \<longrightarrow>
             (unmarshalRaw C (jsonMarshalIndent C inner) = Inl g \<longrightarrow>
                g = Panic PanicErr \<and> Decode C input = Inl g) \<and>
             (unmarshalRaw C (jsonMarshalIndent C inner) = Inr raw \<longrightarrow>
               (rootOf (floatToInt C) raw = Inl g \<longrightarrow>
                  (\<exists>k. g = Panic k) \<and> Decode C input = Inl g) \<and>
               (rootOf (floatToInt C) raw = Inr root \<longrightarrow> Decode C input = Inr root))))))"
    using raw_fail rootOf_panics [of "floatToInt C" raw g]
    by (simp add: Decode_def andThen_def)
  show "Decode C input = Inr root \<longrightarrow>
      (\<exists>decoded outer gr unzipped inner raw.
         decode input 2 [] = Inr decoded \<and> cborUnmarshalBytes C decoded = Some outer \<and>
         gzipNewReader C outer = Some gr \<and> ioReadAll C gr = Some unzipped \<and>
         cborUnmarshalAny C unzipped = Some inner \<and>
         unmarshalRaw C (jsonMarshalIndent C inner) = Inr raw \<and>
         rootOf (floatToInt C) raw = Inr root)"
    using Decode_Inr by blast
  show "snd (Decode_st C input T) = T"
    by (rule Decode_st_state)
  show "fst (Decode_st C' input' (snd (Decode_st C input T))) = fst (Decode_st C' input' T)"
    by (simp add: Decode_st_state)
  show "Decode_st C input init_tables = (Decode C input, init_tables)"
    by (rule Decode_st_init)
qed

theorem Decode_aborts_without_error_value_witness:
  "decode [] 2 [] = Inl (Error TooShort) \<and>
   Decode \<lparr>cborUnmarshalBytes = Some, gzipNewReader = Some, ioReadAll = Some,
      cborUnmarshalAny = Some, jsonMarshalIndent = id,
      jsonParse = (\<lambda>j. Some (JArray [JNumber (1 :: int), JArray []])), floatToInt = id\<rparr> []
     = Inl (Fatal BytewordsDecode) \<and>
   decode ''aetdaowslg'' 2 [] = Inr [0] \<and>
   Decode_st \<lparr>cborUnmarshalBytes = Some, gzipNewReader = Some, ioReadAll = Some,
      cborUnmarshalAny = Some, jsonMarshalIndent = id,
      jsonParse = (\<lambda>j. Some (JArray [JNumber (1 :: int), JArray []])), floatToInt = id\<rparr>
      ''aetdaowslg'' init_tables
     = (Inr \<lparr>Version = 1, Accounts = []\<rparr>, init_tables) \<and>
   Decode_st \<lparr>cborUnmarshalBytes = Some, gzipNewReader = Map.empty, ioReadAll = Some,
      cborUnmarshalAny = Some, jsonMarshalIndent = id,
      jsonParse = (\<lambda>j. Some (JArray [JNumber (1 :: int), JArray []])), floatToInt = id\<rparr>
      ''aetdaowslg'' init_tables
     = (Inl (Fatal GzipReader), init_tables)"
proof -
  let ?C = "\<lparr>cborUnmarshalBytes = Some, gzipNewReader = Some, ioReadAll = Some,
      cborUnmarshalAny = Some, jsonMarshalIndent = id,
      jsonParse = (\<lambda>j. Some (JArray [JNumber (1 :: int), JArray []])), floatToInt = id\<rparr>"
  let ?D = "\<lparr>cborUnmarshalBytes = Some, gzipNewReader = Map.empty, ioReadAll = Some,
      cborUnmarshalAny = Some, jsonMarshalIndent = id,
      jsonParse = (\<lambda>j. Some (JArray [JNumber (1 :: int), JArray []])), floatToInt = id\<rparr>"
  have d: "decode ''aetdaowslg'' 2 [] = Inr [0]"
    using decode_encodeMinimal [of "[0]" "[]"] by (simp add: encode_zero)
  have raw: "unmarshalRaw ?C (jsonMarshalIndent ?C [0]) = Inr [JNumber 1, JArray []]"
    by (simp add: unmarshalRaw_def)
  have root: "rootOf (floatToInt ?C) [JNumber 1, JArray []] = Inr \<lparr>Version = 1, Accounts = []\<rparr>"
    by (simp add: rootOf_def index_def asFloat64_def asSlice_def andThen_def)
  note fails = Decode_aborts_without_error_value [where C = ?C and input = "[]"
      and e = TooShort]
  note succeeds = Decode_aborts_without_error_value [where C = ?C and input = "''aetdaowslg''"
      and decoded = "[0]" and outer = "[0]" and gr = "[0]" and unzipped = "[0]"
      and inner = "[0]" and g = "Panic PanicErr" and raw = "[JNumber 1, JArray []]"
      and root = "\<lparr>Version = 1, Accounts = []\<rparr>"]
  note gzip = Decode_aborts_without_error_value [where C = ?D and input = "''aetdaowslg''"
      and decoded = "[0]" and outer = "[0]" and gr = "[0]" and unzipped = "[0]"
      and inner = "[0]" and g = "Panic PanicErr" and raw = "[JNumber 1, JArray []]"
      and root = "\<lparr>Version = 1, Accounts = []\<rparr>"]
  have a: "Decode ?C [] = Inl (Fatal BytewordsDecode)"
    by (rule fails [THEN conjunct2, THEN conjunct2, THEN conjunct1, rule_format,
          OF decode_empty])
  have b: "Decode ?C ''aetdaowslg'' = Inr \<lparr>Version = 1, Accounts = []\<rparr>"
    using succeeds [THEN conjunct2, THEN conjunct2, THEN conjunct2, THEN conjunct2,
        THEN conjunct1] d raw root
    by simp
  have c: "Decode ?D ''aetdaowslg'' = Inl (Fatal GzipReader)"
    using gzip [THEN conjunct2, THEN conjunct2, THEN conjunct2, THEN conjunct2,
        THEN conjunct1] d
    by simp
  have st: "Decode_st ?C ''aetdaowslg'' init_tables = (Decode ?C ''aetdaowslg'', init_tables)"
    "Decode_st ?D ''aetdaowslg'' init_tables = (Decode ?D ''aetdaowslg'', init_tables)"
    by (rule succeeds [THEN conjunct2, THEN conjunct2, THEN conjunct2, THEN conjunct2,
          THEN conjunct2, THEN conjunct2, THEN conjunct2, THEN conjunct2],
        rule gzip [THEN conjunct2, THEN conjunct2, THEN conjunct2, THEN conjunct2,
          THEN conjunct2, THEN conjunct2, THEN conjunct2, THEN conjunct2])
  show ?thesis
    by (simp only: decode_empty d st a b c simp_thms)
qed

end
